theory Spec2Isabelle
  imports Main "HOL-Library.Word"
begin

unbundle bit_operations_syntax

chapter \<open>Session tokens of the subscription worker: model and verification\<close>

text \<open>
  The development embeds \<^verbatim>\<open>src/services/auth.js\<close> (the token module of the worker) and
  the older, shorter variant of the same module that the repository also carries, together
  with the platform functions they call (\<^verbatim>\<open>btoa\<close>, \<^verbatim>\<open>atob\<close>, \<^verbatim>\<open>JSON\<close>,
  \<^verbatim>\<open>TextEncoder\<close>, \<^verbatim>\<open>crypto.subtle\<close>).

  Conventions.
  \<^item> A string is a \<^typ>\<open>string\<close>: a list of code units in the range 0..255, the range on
    which \<^verbatim>\<open>btoa\<close> is defined. Strings with code units above 255 are outside the model.
  \<^item> A thrown exception or rejected promise is the left summand of a sum type \<open>exn + 'a\<close>.
  \<^item> The wall clock is a parameter: \<open>now\<close> stands for \<^verbatim>\<open>Math.floor(Date.now() / 1000)\<close>.
\<close>

section \<open>Definitions\<close>

subsection \<open>Exceptions\<close>

datatype exn =
    TypeError
  | InvalidCharacterError
  | SyntaxError
  | DataError
  | Error string

subsection \<open>Values\<close>

text \<open>
  The values that travel through the module: what \<^verbatim>\<open>JSON.parse\<close> can return, and what a
  caller passes as secret, token or claims. Numbers are integers (epoch seconds); a number
  with a fraction, \<^verbatim>\<open>NaN\<close> and the infinities are outside the model. An object is the list
  of its own properties in their order. An argument that may be \<^verbatim>\<open>undefined\<close> has type
  \<open>json option\<close>, \<open>None\<close> being \<^verbatim>\<open>undefined\<close>.
\<close>

datatype json =
    JNull
  | JBool bool
  | JNum int
  | JStr string
  | JArr "json list"
  | JObj "(string \<times> json) list"

type_synonym jsval = "json option"

subsection \<open>Platform: \<^verbatim>\<open>btoa\<close> and \<^verbatim>\<open>atob\<close>\<close>

text \<open>The base64 alphabet: \<open>A-Z\<close>, \<open>a-z\<close>, \<open>0-9\<close>, \<open>+\<close>, \<open>/\<close>.\<close>

definition b64_char :: "nat \<Rightarrow> char" where
  "b64_char n = char_of (if n < 26 then n + 65 else if n < 52 then n + 71
                         else if n < 62 then n - 4 else if n = 62 then 43 else (47::nat))"

definition b64_index :: "char \<Rightarrow> nat option" where
  "b64_index c = (let n = (of_char c :: nat) in
     if 65 \<le> n \<and> n \<le> 90 then Some (n - 65)
     else if 97 \<le> n \<and> n \<le> 122 then Some (n - 71)
     else if 48 \<le> n \<and> n \<le> 57 then Some (n + 4)
     else if n = 43 then Some 62
     else if n = 47 then Some 63
     else None)"

text \<open>Three octets become four six-bit groups; a final group of one or two octets becomes
  two or three, the unused low bits being zero.\<close>

fun sextets :: "string \<Rightarrow> nat list" where
  "sextets [] = []"
| "sextets [a] = (let x = (of_char a :: nat) in [x div 4, (x mod 4) * 16])"
| "sextets [a, b] = (let x = (of_char a :: nat); y = (of_char b :: nat) in
     [x div 4, (x mod 4) * 16 + y div 16, (y mod 16) * 4])"
| "sextets (a # b # c # r) =
     (let x = (of_char a :: nat); y = (of_char b :: nat); z = (of_char c :: nat) in
      [x div 4, (x mod 4) * 16 + y div 16, (y mod 16) * 4 + z div 64, z mod 64]) @ sextets r"

text \<open>\<^verbatim>\<open>btoa\<close>: standard base64 with \<open>=\<close> padding to a multiple of four characters. (The
  platform throws on a code unit above 255; the string type has none.)\<close>

definition btoa :: "string \<Rightarrow> string" where
  "btoa s = (let t = map b64_char (sextets s)
             in t @ replicate ((4 - length t mod 4) mod 4) CHR ''='')"

fun octets :: "nat list \<Rightarrow> string" where
  "octets [] = []"
| "octets [a] = []"
| "octets [a, b] = [char_of (a * 4 + b div 16)]"
| "octets [a, b, c] = [char_of (a * 4 + b div 16), char_of ((b mod 16) * 16 + c div 4)]"
| "octets (a # b # c # d # r) =
     [char_of (a * 4 + b div 16), char_of ((b mod 16) * 16 + c div 4),
      char_of ((c mod 4) * 64 + d)] @ octets r"

definition is_ascii_whitespace :: "char \<Rightarrow> bool" where
  "is_ascii_whitespace c = ((of_char c :: nat) \<in> {9, 10, 12, 13, 32})"

definition strip_padding :: "string \<Rightarrow> string" where
  "strip_padding d =
     (if length d mod 4 = 0 then
        (if d \<noteq> [] \<and> last d = CHR ''='' then
           (let d1 = butlast d in if d1 \<noteq> [] \<and> last d1 = CHR ''='' then butlast d1 else d1)
         else d)
      else d)"

text \<open>\<^verbatim>\<open>atob\<close>, the forgiving base64 decoder of the platform: ASCII whitespace is dropped;
  when the length is a multiple of four, one or two closing \<open>=\<close> are dropped; a length of
  1 modulo 4 or a character outside the alphabet throws \<open>InvalidCharacterError\<close>.\<close>

definition atob :: "string \<Rightarrow> exn + string" where
  "atob data =
     (let d = strip_padding (filter (\<lambda>c. \<not> is_ascii_whitespace c) data) in
      if length d mod 4 = 1 then Inl InvalidCharacterError
      else case those (map b64_index d) of
             None \<Rightarrow> Inl InvalidCharacterError
           | Some v \<Rightarrow> Inr (octets v))"

subsection \<open>Codec: \<^verbatim>\<open>base64UrlEncode\<close> and \<^verbatim>\<open>base64UrlDecode\<close>\<close>

text \<open>\<^verbatim>\<open>str.replace(/a/g, 'b')\<close> for single characters.\<close>

definition replace_char :: "char \<Rightarrow> char \<Rightarrow> string \<Rightarrow> string" where
  "replace_char a b s = map (\<lambda>c. if c = a then b else c) s"

text \<open>
  \<^verbatim>\<open>return btoa(str).replace(/\+/g, '-').replace(/\//g, '_').replace(/=/g, '');\<close>
\<close>

definition base64UrlEncode :: "string \<Rightarrow> string" where
  "base64UrlEncode str =
     filter (\<lambda>c. c \<noteq> CHR ''='')
       (replace_char CHR ''/'' CHR ''_'' (replace_char CHR ''+'' CHR ''-'' (btoa str)))"

text \<open>The loop \<^verbatim>\<open>while (str.length % 4) { str += '='; }\<close>.\<close>

function pad4 :: "string \<Rightarrow> string" where
  "pad4 str = (if length str mod 4 \<noteq> 0 then pad4 (str @ ''='') else str)"
  by pat_completeness auto
termination
proof (relation "measure (\<lambda>s. (4 - length s mod 4) mod 4)")
  show "wf (measure (\<lambda>s. (4 - length s mod 4) mod 4))"
    by simp
next
  fix str :: string
  assume "length str mod 4 \<noteq> 0"
  moreover have "length str mod 4 < 4"
    by simp
  ultimately consider "length str mod 4 = 1" | "length str mod 4 = 2" | "length str mod 4 = 3"
    by linarith
  then show "(str @ ''='', str) \<in> measure (\<lambda>s. (4 - length s mod 4) mod 4)"
    by cases (simp_all add: mod_Suc)
qed

declare pad4.simps [simp del]

text \<open>
  \<^verbatim>\<open>str = str.replace(/-/g, '+').replace(/_/g, '/'); while ... ; return atob(str);\<close>
\<close>

definition base64UrlDecode :: "string \<Rightarrow> exn + string" where
  "base64UrlDecode str =
     atob (pad4 (replace_char CHR ''_'' CHR ''/'' (replace_char CHR ''-'' CHR ''+'' str)))"

text \<open>The character that \<^const>\<open>base64UrlEncode\<close> writes for a character of the alphabet.\<close>

definition url_char :: "char \<Rightarrow> char" where
  "url_char c = (if c = CHR ''+'' then CHR ''-'' else if c = CHR ''/'' then CHR ''_'' else c)"

subsection \<open>Platform: \<^verbatim>\<open>JSON.stringify\<close> and \<^verbatim>\<open>JSON.parse\<close>\<close>

text \<open>
  The serialiser writes what \<^verbatim>\<open>JSON.stringify\<close> writes for a value of type \<^typ>\<open>json\<close>:
  no white space, members in the order of the list, decimal integers, strings quoted, with
  the two-character escapes for the quote, the backslash, backspace, form feed, line feed,
  carriage return and tab, and the six-character escape \<^verbatim>\<open>u00XX\<close> after a backslash for
  the other control characters.
\<close>

definition digit_char :: "nat \<Rightarrow> char" where
  "digit_char d = char_of (48 + d)"

function show_nat :: "nat \<Rightarrow> string" where
  "show_nat n = (if n < 10 then [digit_char n] else show_nat (n div 10) @ [digit_char (n mod 10)])"
  by pat_completeness auto
termination
  by (relation "measure id") simp_all

declare show_nat.simps [simp del]

definition show_int :: "int \<Rightarrow> string" where
  "show_int i = (if i < 0 then CHR ''-'' # show_nat (nat (- i)) else show_nat (nat i))"

definition hex_char :: "nat \<Rightarrow> char" where
  "hex_char d = (if d < 10 then char_of (48 + d) else char_of (87 + d))"

definition quote_char :: "char \<Rightarrow> string" where
  "quote_char c =
     (if c = CHR 0x22 then [CHR 0x5C, CHR 0x22]
      else if c = CHR 0x5C then [CHR 0x5C, CHR 0x5C]
      else if c = CHR 0x08 then [CHR 0x5C, CHR ''b'']
      else if c = CHR 0x0C then [CHR 0x5C, CHR ''f'']
      else if c = CHR 0x0A then [CHR 0x5C, CHR ''n'']
      else if c = CHR 0x0D then [CHR 0x5C, CHR ''r'']
      else if c = CHR 0x09 then [CHR 0x5C, CHR ''t'']
      else if (of_char c :: nat) < 32 then
        [CHR 0x5C, CHR ''u'', CHR ''0'', CHR ''0'',
         hex_char (of_char c div 16), hex_char (of_char c mod 16)]
      else [c])"

definition quote :: "string \<Rightarrow> string" where
  "quote s = CHR 0x22 # concat (map quote_char s) @ [CHR 0x22]"

fun stringify :: "json \<Rightarrow> string"
  and stringify_elements :: "json list \<Rightarrow> string"
  and stringify_members :: "(string \<times> json) list \<Rightarrow> string"
where
  "stringify JNull = ''null''"
| "stringify (JBool b) = (if b then ''true'' else ''false'')"
| "stringify (JNum i) = show_int i"
| "stringify (JStr s) = quote s"
| "stringify (JArr xs) = ''['' @ stringify_elements xs @ '']''"
| "stringify (JObj ms) = ''{'' @ stringify_members ms @ ''}''"
| "stringify_elements [] = []"
| "stringify_elements [x] = stringify x"
| "stringify_elements (x # y # ys) = stringify x @ '','' @ stringify_elements (y # ys)"
| "stringify_members [] = []"
| "stringify_members [(k, v)] = quote k @ '':'' @ stringify v"
| "stringify_members ((k, v) # m # ms) =
     quote k @ '':'' @ stringify v @ '','' @ stringify_members (m # ms)"

text \<open>
  The parser follows the JSON grammar: white space (space, tab, line feed, carriage return)
  between tokens, the literals, strings with their escapes, arrays and objects. A syntax
  error is \<open>None\<close>. Two restrictions come from the value type: a number with a fraction or an
  exponent part, and a four-digit escape above \<^verbatim>\<open>00FF\<close>, are reported as errors, since
  the model has no value for them.
\<close>

definition is_json_ws :: "char \<Rightarrow> bool" where
  "is_json_ws c = ((of_char c :: nat) \<in> {32, 9, 10, 13})"

definition skip_ws :: "string \<Rightarrow> string" where
  "skip_ws s = dropWhile is_json_ws s"

definition is_digit :: "char \<Rightarrow> bool" where
  "is_digit c = (48 \<le> (of_char c :: nat) \<and> (of_char c :: nat) \<le> 57)"

fun parse_digits :: "string \<Rightarrow> nat \<Rightarrow> nat \<times> string" where
  "parse_digits [] acc = (acc, [])"
| "parse_digits (c # r) acc =
     (if is_digit c then parse_digits r (acc * 10 + (of_char c - 48)) else (acc, c # r))"

definition parse_nat :: "string \<Rightarrow> (nat \<times> string) option" where
  "parse_nat s =
     (case s of
        [] \<Rightarrow> None
      | c # r \<Rightarrow>
          if c = CHR ''0'' then Some (0, r)
          else if is_digit c then Some (parse_digits (c # r) 0)
          else None)"

definition int_only :: "(json \<times> string) option \<Rightarrow> (json \<times> string) option" where
  "int_only p =
     (case p of
        None \<Rightarrow> None
      | Some (v, r) \<Rightarrow>
          (case r of
             [] \<Rightarrow> Some (v, r)
           | c # _ \<Rightarrow>
               if c = CHR ''.'' \<or> c = CHR ''e'' \<or> c = CHR ''E'' then None else Some (v, r)))"

definition parse_number :: "string \<Rightarrow> (json \<times> string) option" where
  "parse_number s =
     int_only
       (case s of
          [] \<Rightarrow> None
        | c # r \<Rightarrow>
            if c = CHR ''-'' then map_option (\<lambda>(n, t). (JNum (- int n), t)) (parse_nat r)
            else map_option (\<lambda>(n, t). (JNum (int n), t)) (parse_nat s))"

definition hex_val :: "char \<Rightarrow> nat option" where
  "hex_val c =
     (let n = (of_char c :: nat) in
      if 48 \<le> n \<and> n \<le> 57 then Some (n - 48)
      else if 97 \<le> n \<and> n \<le> 102 then Some (n - 87)
      else if 65 \<le> n \<and> n \<le> 70 then Some (n - 55)
      else None)"

definition unescape :: "char \<Rightarrow> char option" where
  "unescape e =
     (if e = CHR 0x22 then Some (CHR 0x22)
      else if e = CHR 0x5C then Some (CHR 0x5C)
      else if e = CHR ''/'' then Some (CHR ''/'')
      else if e = CHR ''b'' then Some (CHR 0x08)
      else if e = CHR ''f'' then Some (CHR 0x0C)
      else if e = CHR ''n'' then Some (CHR 0x0A)
      else if e = CHR ''r'' then Some (CHR 0x0D)
      else if e = CHR ''t'' then Some (CHR 0x09)
      else None)"

definition unicode_escape :: "string \<Rightarrow> char option" where
  "unicode_escape h =
     (case map hex_val h of
        [Some a, Some b, Some c, Some d] \<Rightarrow>
          if a = 0 \<and> b = 0 then Some (char_of (c * 16 + d)) else None
      | _ \<Rightarrow> None)"

text \<open>The characters of a string literal, after its opening quote.\<close>

fun parse_chars :: "string \<Rightarrow> (string \<times> string) option" where
  "parse_chars [] = None"
| "parse_chars (c # r) =
     (if c = CHR 0x22 then Some ([], r)
      else if c = CHR 0x5C then
        (case r of
           [] \<Rightarrow> None
         | e # r' \<Rightarrow>
             if e = CHR ''u'' then
               (case unicode_escape (take 4 r') of
                  None \<Rightarrow> None
                | Some ch \<Rightarrow> map_option (\<lambda>(x, t). (ch # x, t)) (parse_chars (drop 4 r')))
             else
               (case unescape e of
                  None \<Rightarrow> None
                | Some ch \<Rightarrow> map_option (\<lambda>(x, t). (ch # x, t)) (parse_chars r')))
      else if (of_char c :: nat) < 32 then None
      else map_option (\<lambda>(x, t). (c # x, t)) (parse_chars r))"

text \<open>Assignment \<^verbatim>\<open>obj[k] = v\<close>: an existing property keeps its place, a new one is
  added last.\<close>

fun set_prop :: "string \<Rightarrow> 'a \<Rightarrow> (string \<times> 'a) list \<Rightarrow> (string \<times> 'a) list" where
  "set_prop k v [] = [(k, v)]"
| "set_prop k v ((k', v') # ps) = (if k' = k then (k, v) # ps else (k', v') # set_prop k v ps)"

text \<open>The object built from parsed members: a repeated key keeps its last value.\<close>

definition mk_obj :: "(string \<times> json) list \<Rightarrow> (string \<times> json) list" where
  "mk_obj ms = foldl (\<lambda>acc (k, v). set_prop k v acc) [] ms"

text \<open>
  \<open>parse_value\<close> reads one value and returns it with the rest of the input;
  \<open>parse_elements\<close> reads the elements of a non-empty array up to its \<open>]\<close> and
  \<open>parse_members\<close> the members of a non-empty object up to its \<open>}\<close>. The tests on the
  length of the rest always succeed (a value takes at least one character); they are what
  the termination proof uses.
\<close>

function parse_value :: "string \<Rightarrow> (json \<times> string) option"
  and parse_elements :: "string \<Rightarrow> (json list \<times> string) option"
  and parse_members :: "string \<Rightarrow> ((string \<times> json) list \<times> string) option"
where
  "parse_value s =
     (case skip_ws s of
        [] \<Rightarrow> None
      | c # r \<Rightarrow>
          if c = CHR ''{'' then
            (case skip_ws r of
               [] \<Rightarrow> None
             | d # r' \<Rightarrow>
                 if d = CHR ''}'' then Some (JObj [], r')
                 else map_option (\<lambda>(ms, t). (JObj (mk_obj ms), t)) (parse_members (d # r')))
          else if c = CHR ''['' then
            (case skip_ws r of
               [] \<Rightarrow> None
             | d # r' \<Rightarrow>
                 if d = CHR '']'' then Some (JArr [], r')
                 else map_option (\<lambda>(vs, t). (JArr vs, t)) (parse_elements (d # r')))
          else if c = CHR 0x22 then map_option (\<lambda>(x, t). (JStr x, t)) (parse_chars r)
          else if take 4 (c # r) = ''true'' then Some (JBool True, drop 4 (c # r))
          else if take 5 (c # r) = ''false'' then Some (JBool False, drop 5 (c # r))
          else if take 4 (c # r) = ''null'' then Some (JNull, drop 4 (c # r))
          else parse_number (c # r))"
| "parse_elements s =
     (case parse_value s of
        None \<Rightarrow> None
      | Some (v, r) \<Rightarrow>
          if length r < length s then
            (case skip_ws r of
               [] \<Rightarrow> None
             | c # r' \<Rightarrow>
                 if c = CHR '','' then map_option (\<lambda>(vs, t). (v # vs, t)) (parse_elements r')
                 else if c = CHR '']'' then Some ([v], r')
                 else None)
          else None)"
| "parse_members s =
     (case skip_ws s of
        [] \<Rightarrow> None
      | q # r \<Rightarrow>
          if q = CHR 0x22 then
            (case parse_chars r of
               None \<Rightarrow> None
             | Some (k, r1) \<Rightarrow>
                 (case skip_ws r1 of
                    [] \<Rightarrow> None
                  | c # r2 \<Rightarrow>
                      if c = CHR '':'' \<and> length r2 < length s then
                        (case parse_value r2 of
                           None \<Rightarrow> None
                         | Some (v, r3) \<Rightarrow>
                             if length r3 < length s then
                               (case skip_ws r3 of
                                  [] \<Rightarrow> None
                                | c' # r4 \<Rightarrow>
                                    if c' = CHR '','' then
                                      map_option (\<lambda>(ms, t). ((k, v) # ms, t)) (parse_members r4)
                                    else if c' = CHR ''}'' then Some ([(k, v)], r4)
                                    else None)
                             else None)
                      else None))
          else None)"
  by pat_completeness auto
termination
proof (relation "measure (\<lambda>x. case x of Inl s \<Rightarrow> 2 * length s
                                   | Inr (Inl s) \<Rightarrow> 2 * length s + 1
                                   | Inr (Inr s) \<Rightarrow> 2 * length s + 1)", goal_cases)
  case 1
  then show ?case by simp
next
  case (2 s c r d r')
  have "length (skip_ws s) \<le> length s" "length (skip_ws r) \<le> length r"
    by (simp_all add: skip_ws_def length_dropWhile_le)
  with 2 show ?case by simp
next
  case (3 s c r d r')
  have "length (skip_ws s) \<le> length s" "length (skip_ws r) \<le> length r"
    by (simp_all add: skip_ws_def length_dropWhile_le)
  with 3 show ?case by simp
next
  case (4 s)
  then show ?case by simp
next
  case (5 s x v r c r')
  have "length (skip_ws r) \<le> length r"
    by (simp add: skip_ws_def length_dropWhile_le)
  with 5 show ?case by simp
next
  case (6 s q r x k r1 c r2)
  then show ?case by simp
next
  case (7 s q r x k r1 c r2 y v r3 c' r4)
  have "length (skip_ws r3) \<le> length r3"
    by (simp add: skip_ws_def length_dropWhile_le)
  with 7 show ?case by simp
qed

declare parse_value.simps [simp del] parse_elements.simps [simp del]
  parse_members.simps [simp del]

text \<open>\<^verbatim>\<open>JSON.parse(text)\<close>: one value, then nothing but white space.\<close>

definition JSON_parse :: "string \<Rightarrow> json option" where
  "JSON_parse text =
     (case parse_value text of
        None \<Rightarrow> None
      | Some (v, r) \<Rightarrow> if skip_ws r = [] then Some v else None)"

text \<open>
  A value of the platform has no object with a repeated key: \<open>wf_json\<close> says so of a
  \<^typ>\<open>json\<close>, at every depth.
\<close>

fun wf_json :: "json \<Rightarrow> bool"
  and wf_elements :: "json list \<Rightarrow> bool"
  and wf_members :: "(string \<times> json) list \<Rightarrow> bool"
where
  "wf_json (JArr xs) = wf_elements xs"
| "wf_json (JObj ms) = (distinct (map fst ms) \<and> wf_members ms)"
| "wf_json JNull = True"
| "wf_json (JBool b) = True"
| "wf_json (JNum i) = True"
| "wf_json (JStr s) = True"
| "wf_elements [] = True"
| "wf_elements (x # xs) = (wf_json x \<and> wf_elements xs)"
| "wf_members [] = True"
| "wf_members ((k, v) # ms) = (wf_json v \<and> wf_members ms)"

text \<open>Two notions for the proofs about the parser: a rest of the input at which a number
  ends, and a character with which a serialised value starts.\<close>

definition delim :: "string \<Rightarrow> bool" where
  "delim r =
     (case r of
        [] \<Rightarrow> True
      | c # _ \<Rightarrow> \<not> is_digit c \<and> c \<noteq> CHR ''.'' \<and> c \<noteq> CHR ''e'' \<and> c \<noteq> CHR ''E'')"

definition value_start :: "char \<Rightarrow> bool" where
  "value_start c =
     (is_digit c \<or>
      c \<in> {CHR ''n'', CHR ''t'', CHR ''f'', CHR ''-'', CHR 0x22, CHR ''['', CHR ''{''})"

subsection \<open>Platform: \<^verbatim>\<open>TextEncoder\<close> and \<^verbatim>\<open>crypto.subtle\<close> (HMAC with SHA-256)\<close>

text \<open>\<^verbatim>\<open>textEncoder.encode(s)\<close>: the UTF-8 bytes of a string of code units below 256.\<close>

definition utf8_char :: "char \<Rightarrow> string" where
  "utf8_char c =
     (let n = (of_char c :: nat) in
      if n < 128 then [c] else [char_of (192 + n div 64), char_of (128 + n mod 64)])"

definition TextEncoder_encode :: "string \<Rightarrow> string" where
  "TextEncoder_encode s = concat (map utf8_char s)"

text \<open>SHA-256 as in FIPS 180-4, on 32-bit words; the round constants and the initial hash
  value are written in decimal.\<close>

type_synonym w32 = "32 word"

definition K256 :: "w32 list" where
  "K256 =
    [1116352408, 1899447441, 3049323471, 3921009573, 961987163, 1508970993,
     2453635748, 2870763221, 3624381080, 310598401, 607225278, 1426881987,
     1925078388, 2162078206, 2614888103, 3248222580, 3835390401, 4022224774,
     264347078, 604807628, 770255983, 1249150122, 1555081692, 1996064986,
     2554220882, 2821834349, 2952996808, 3210313671, 3336571891, 3584528711,
     113926993, 338241895, 666307205, 773529912, 1294757372, 1396182291,
     1695183700, 1986661051, 2177026350, 2456956037, 2730485921, 2820302411,
     3259730800, 3345764771, 3516065817, 3600352804, 4094571909, 275423344,
     430227734, 506948616, 659060556, 883997877, 958139571, 1322822218,
     1537002063, 1747873779, 1955562222, 2024104815, 2227730452, 2361852424,
     2428436474, 2756734187, 3204031479, 3329325298]"

definition H256 :: "w32 list" where
  "H256 =
    [1779033703, 3144134277, 1013904242, 2773480762, 1359893119, 2600822924,
     528734635, 1541459225]"

definition rotr :: "nat \<Rightarrow> w32 \<Rightarrow> w32" where
  "rotr n x = word_rotr n x"

definition Ch :: "w32 \<Rightarrow> w32 \<Rightarrow> w32 \<Rightarrow> w32" where
  "Ch x y z = (x AND y) XOR (NOT x AND z)"

definition Maj :: "w32 \<Rightarrow> w32 \<Rightarrow> w32 \<Rightarrow> w32" where
  "Maj x y z = (x AND y) XOR (x AND z) XOR (y AND z)"

definition Sigma0 :: "w32 \<Rightarrow> w32" where
  "Sigma0 x = rotr 2 x XOR rotr 13 x XOR rotr 22 x"

definition Sigma1 :: "w32 \<Rightarrow> w32" where
  "Sigma1 x = rotr 6 x XOR rotr 11 x XOR rotr 25 x"

definition sigma0 :: "w32 \<Rightarrow> w32" where
  "sigma0 x = rotr 7 x XOR rotr 18 x XOR drop_bit 3 x"

definition sigma1 :: "w32 \<Rightarrow> w32" where
  "sigma1 x = rotr 17 x XOR rotr 19 x XOR drop_bit 10 x"

text \<open>Big-endian conversion between four bytes and a word.\<close>

definition be32 :: "string \<Rightarrow> w32" where
  "be32 bs = foldl (\<lambda>w c. w * 256 + of_nat (of_char c)) 0 bs"

definition word_bytes :: "w32 \<Rightarrow> string" where
  "word_bytes w = map (\<lambda>k. char_of (unat (drop_bit k w))) [24, 16, 8, 0]"

function blocks :: "nat \<Rightarrow> string \<Rightarrow> string list" where
  "blocks n s = (if n = 0 \<or> s = [] then [] else take n s # blocks n (drop n s))"
  by pat_completeness auto
termination
  by (relation "measure (\<lambda>(n, s). length s)") auto

declare blocks.simps [simp del]

text \<open>Padding: the bit \<open>1\<close>, zeros up to 56 modulo 64 bytes, the length in bits on eight
  bytes.\<close>

definition sha256_pad :: "string \<Rightarrow> string" where
  "sha256_pad m =
     m @ [CHR 0x80] @ replicate ((64 - (length m + 9) mod 64) mod 64) (CHR 0x00)
       @ map (\<lambda>k. char_of ((8 * length m) div 256 ^ k)) [7, 6, 5, 4, 3, 2, 1, 0]"

text \<open>The message schedule: sixteen words of the block, extended to sixty-four.\<close>

fun extend :: "nat \<Rightarrow> w32 list \<Rightarrow> w32 list" where
  "extend 0 w = w"
| "extend (Suc n) w =
     (let l = length w
      in extend n (w @ [sigma1 (w ! (l - 2)) + w ! (l - 7) + sigma0 (w ! (l - 15)) + w ! (l - 16)]))"

definition schedule :: "string \<Rightarrow> w32 list" where
  "schedule block = extend 48 (map be32 (blocks 4 block))"

fun round256 :: "w32 list \<Rightarrow> w32 \<times> w32 \<Rightarrow> w32 list" where
  "round256 [a, b, c, d, e, f, g, h] (k, w) =
     (let t1 = h + Sigma1 e + Ch e f g + k + w;
          t2 = Sigma0 a + Maj a b c
      in [t1 + t2, a, b, c, d + t1, e, f, g])"
| "round256 st _ = st"

definition compress :: "w32 list \<Rightarrow> string \<Rightarrow> w32 list" where
  "compress st block = map2 (+) st (foldl round256 st (zip K256 (schedule block)))"

definition sha256 :: "string \<Rightarrow> string" where
  "sha256 m = concat (map word_bytes (foldl compress H256 (blocks 64 (sha256_pad m))))"

text \<open>HMAC as in RFC 2104, with a block of 64 bytes.\<close>

definition xor_byte :: "nat \<Rightarrow> char \<Rightarrow> char" where
  "xor_byte p c = char_of ((of_char c :: nat) XOR p)"

definition hmac_sha256 :: "string \<Rightarrow> string \<Rightarrow> string" where
  "hmac_sha256 key msg =
     (let k = (if 64 < length key then sha256 key else key);
          k0 = k @ replicate (64 - length k) (CHR 0x00)
      in sha256 (map (xor_byte 0x5C) k0 @ sha256 (map (xor_byte 0x36) k0 @ msg)))"

text \<open>
  \<^verbatim>\<open>crypto.subtle.importKey('raw', keyData, {name: 'HMAC', hash: 'SHA-256'}, ...)\<close>: the key
  handle is the key material; an empty key is refused with \<open>DataError\<close>.
\<close>

definition importKey :: "string \<Rightarrow> exn + string" where
  "importKey keyData = (if keyData = [] then Inl DataError else Inr keyData)"

text \<open>\<^verbatim>\<open>crypto.subtle.sign('HMAC', key, data)\<close> and
  \<^verbatim>\<open>crypto.subtle.verify('HMAC', key, signature, data)\<close>.\<close>

definition subtle_sign :: "string \<Rightarrow> string \<Rightarrow> string" where
  "subtle_sign key data = hmac_sha256 key data"

definition subtle_verify :: "string \<Rightarrow> string \<Rightarrow> string \<Rightarrow> bool" where
  "subtle_verify key signature data = (signature = hmac_sha256 key data)"

subsection \<open>Language: truthiness, properties, comparisons, strings\<close>

text \<open>The condition of \<^verbatim>\<open>if (v)\<close> and the operand test of \<^verbatim>\<open>!\<close>, \<^verbatim>\<open>&&\<close> and \<^verbatim>\<open>||\<close>.\<close>

definition truthy :: "jsval \<Rightarrow> bool" where
  "truthy v =
     (case v of
        None \<Rightarrow> False
      | Some JNull \<Rightarrow> False
      | Some (JBool b) \<Rightarrow> b
      | Some (JNum i) \<Rightarrow> i \<noteq> 0
      | Some (JStr s) \<Rightarrow> s \<noteq> []
      | Some (JArr _) \<Rightarrow> True
      | Some (JObj _) \<Rightarrow> True)"

text \<open>
  The read \<^verbatim>\<open>v.k\<close> for a key \<open>k\<close> that is no built-in property of strings, arrays or
  objects (the module reads \<^verbatim>\<open>exp\<close>, \<^verbatim>\<open>iat\<close>, \<^verbatim>\<open>iss\<close> and \<^verbatim>\<open>aud\<close>): a property of
  \<^verbatim>\<open>null\<close> throws, an object gives its own property, every other value gives
  \<^verbatim>\<open>undefined\<close>.
\<close>

definition get_prop :: "json \<Rightarrow> string \<Rightarrow> exn + jsval" where
  "get_prop v k =
     (case v of
        JNull \<Rightarrow> Inl TypeError
      | JObj ms \<Rightarrow> Inr (map_of ms k)
      | _ \<Rightarrow> Inr None)"

text \<open>
  The own enumerable properties that the spread \<^verbatim>\<open>{...v}\<close> and a rest pattern copy: those
  of an object, the indexed ones of a string or an array, none for any other value.
\<close>

definition own_props :: "jsval \<Rightarrow> (string \<times> json) list" where
  "own_props v =
     (case v of
        Some (JObj ms) \<Rightarrow> ms
      | Some (JStr s) \<Rightarrow> zip (map show_nat [0..<length s]) (map (\<lambda>c. JStr [c]) s)
      | Some (JArr xs) \<Rightarrow> zip (map show_nat [0..<length xs]) xs
      | _ \<Rightarrow> [])"

text \<open>
  Conversion of a number to a string (\<^verbatim>\<open>Number::toString\<close> of the language standard, radix
  ten). An integer of the model stands for the Number value nearest to it, as a literal of
  the source does: the significand has 53 bits, a tie goes to the even significand, and a
  value that rounds to \<open>2 ^ 1024\<close> or more is infinite.
\<close>

fun bit_length :: "nat \<Rightarrow> nat" where
  "bit_length n = (if n = 0 then 0 else Suc (bit_length (n div 2)))"

declare bit_length.simps [simp del]

definition round_half_even :: "nat \<Rightarrow> nat \<Rightarrow> nat" where
  "round_half_even e x =
     (let q = x div 2 ^ e; r = x mod 2 ^ e
      in (if 2 ^ e < 2 * r \<or> (2 * r = 2 ^ e \<and> odd q) then q + 1 else q) * 2 ^ e)"

definition finite_number :: "nat \<Rightarrow> nat option" where
  "finite_number y = (if y < 2 ^ 1024 then Some y else None)"

definition number_value :: "nat \<Rightarrow> nat option" where
  "number_value x = finite_number (round_half_even (bit_length x - 53) x)"

text \<open>
  The digits written for a Number value \<open>y\<close> are those of the decimal with the fewest
  significant digits whose Number value is \<open>y\<close>, the nearest to \<open>y\<close> if there are several.
  Among the multiples of a power of ten \<open>p\<close> only the two around \<open>y\<close> can qualify; the
  search goes from the largest power of ten down to \<open>1\<close>, where \<open>y\<close> itself qualifies.
\<close>

definition candidate :: "nat \<Rightarrow> nat \<Rightarrow> nat option" where
  "candidate y p =
     (let lo = (y div p) * p; hi = lo + p
      in if number_value lo = Some y then
           if number_value hi = Some y then
             Some (if y - lo < hi - y then lo
                   else if hi - y < y - lo then hi
                   else if even (y div p) then lo else hi)
           else Some lo
         else if number_value hi = Some y then Some hi
         else None)"

fun shortest_from :: "nat \<Rightarrow> nat \<Rightarrow> nat" where
  "shortest_from y 0 = y"
| "shortest_from y (Suc e) =
     (case candidate y (10 ^ Suc e) of Some v \<Rightarrow> v | None \<Rightarrow> shortest_from y e)"

definition shortest :: "nat \<Rightarrow> nat" where
  "shortest y = shortest_from y (length (show_nat y) - 1)"

text \<open>
  A decimal of at most 21 digits is written out in full; a longer one is written as its
  significant digits, a point after the first of them if there are more, and the exponent.
\<close>

definition significand :: "string \<Rightarrow> string" where
  "significand ds = rev (dropWhile (\<lambda>c. c = CHR ''0'') (rev ds))"

definition show_decimal :: "nat \<Rightarrow> string" where
  "show_decimal v =
     (let ds = show_nat v; n = length ds
      in if n \<le> 21 then ds
         else (case significand ds of
                 [] \<Rightarrow> ds
               | [c] \<Rightarrow> c # ''e+'' @ show_nat (n - 1)
               | c # cs \<Rightarrow> c # ''.'' @ cs @ ''e+'' @ show_nat (n - 1)))"

definition show_number :: "nat \<Rightarrow> string" where
  "show_number x =
     (case number_value x of None \<Rightarrow> ''Infinity'' | Some y \<Rightarrow> show_decimal (shortest y))"

definition number_to_string :: "int \<Rightarrow> string" where
  "number_to_string i =
     (if i < 0 then CHR ''-'' # show_number (nat (- i)) else show_number (nat i))"

text \<open>Conversion to a string, as a template literal does it; an array joins its elements
  with commas, \<^verbatim>\<open>null\<close> elements being empty.\<close>

fun js_to_string :: "json \<Rightarrow> string"
  and join_elements :: "json list \<Rightarrow> string"
where
  "js_to_string JNull = ''null''"
| "js_to_string (JBool b) = (if b then ''true'' else ''false'')"
| "js_to_string (JNum i) = number_to_string i"
| "js_to_string (JStr s) = s"
| "js_to_string (JArr xs) = join_elements xs"
| "js_to_string (JObj ms) = ''[object Object]''"
| "join_elements [] = []"
| "join_elements [x] = (if x = JNull then [] else js_to_string x)"
| "join_elements (x # y # ys) =
     (if x = JNull then [] else js_to_string x) @ '','' @ join_elements (y # ys)"

definition template_string :: "jsval \<Rightarrow> string" where
  "template_string v = (case v of None \<Rightarrow> ''undefined'' | Some j \<Rightarrow> js_to_string j)"

text \<open>
  Conversion to a number, \<open>None\<close> being \<^verbatim>\<open>NaN\<close>. Of the numeric strings only the decimal
  integers (with white space around them and a sign) have a value in the model; the other
  forms (hexadecimal, fraction, exponent, infinity) are taken as \<^verbatim>\<open>NaN\<close>. No result below
  depends on the conversion of a string or an array.
\<close>

definition is_str_ws :: "char \<Rightarrow> bool" where
  "is_str_ws c = ((of_char c :: nat) \<in> {9, 10, 11, 12, 13, 32, 160})"

definition digits_value :: "string \<Rightarrow> int option" where
  "digits_value ds =
     (if ds \<noteq> [] \<and> list_all is_digit ds then Some (int (fst (parse_digits ds 0))) else None)"

definition string_to_number :: "string \<Rightarrow> int option" where
  "string_to_number s =
     (case rev (dropWhile is_str_ws (rev (dropWhile is_str_ws s))) of
        [] \<Rightarrow> Some 0
      | c # r \<Rightarrow>
          if c = CHR ''-'' then map_option uminus (digits_value r)
          else if c = CHR ''+'' then digits_value r
          else digits_value (c # r))"

definition to_number :: "jsval \<Rightarrow> int option" where
  "to_number v =
     (case v of
        None \<Rightarrow> None
      | Some JNull \<Rightarrow> Some 0
      | Some (JBool b) \<Rightarrow> Some (if b then 1 else 0)
      | Some (JNum i) \<Rightarrow> Some i
      | Some (JStr s) \<Rightarrow> string_to_number s
      | Some (JArr xs) \<Rightarrow> string_to_number (join_elements xs)
      | Some (JObj _) \<Rightarrow> None)"

text \<open>\<^verbatim>\<open>v < n\<close> and \<^verbatim>\<open>v > n\<close> for a number \<open>n\<close>: false when \<open>v\<close> converts to
  \<^verbatim>\<open>NaN\<close>.\<close>

definition js_lt :: "jsval \<Rightarrow> int \<Rightarrow> bool" where
  "js_lt v n = (case to_number v of None \<Rightarrow> False | Some i \<Rightarrow> i < n)"

definition js_gt :: "jsval \<Rightarrow> int \<Rightarrow> bool" where
  "js_gt v n = (case to_number v of None \<Rightarrow> False | Some i \<Rightarrow> n < i)"

text \<open>\<^verbatim>\<open>str.split(c)\<close> for a separator of one character.\<close>

fun split_on :: "char \<Rightarrow> string \<Rightarrow> string list" where
  "split_on c [] = [[]]"
| "split_on c (x # xs) =
     (if x = c then [] # split_on c xs
      else (case split_on c xs of [] \<Rightarrow> [[x]] | s # ss \<Rightarrow> (x # s) # ss))"

text \<open>\<^verbatim>\<open>token.split('.')\<close>: only a string has the method; on another (truthy) value the
  call throws.\<close>

definition js_split :: "jsval \<Rightarrow> exn + string list" where
  "js_split v = (case v of Some (JStr s) \<Rightarrow> Inr (split_on CHR ''.'' s) | _ \<Rightarrow> Inl TypeError)"

text \<open>An element taken by an array pattern: \<^verbatim>\<open>undefined\<close> past the end.\<close>

definition nth_opt :: "'a list \<Rightarrow> nat \<Rightarrow> 'a option" where
  "nth_opt xs i = (if i < length xs then Some (xs ! i) else None)"

subsection \<open>The logger argument\<close>

text \<open>
  The functions of the module take a logger and call \<^verbatim>\<open>logger.warn\<close>, \<^verbatim>\<open>logger.error\<close>
  or \<^verbatim>\<open>logger.fatal\<close> on it. The argument is either a logger, whose methods return, or
  some other value (\<^verbatim>\<open>undefined\<close> when the caller leaves it out), on which the call throws
  \<open>TypeError\<close>. What a logger records is not part of the model.
\<close>

datatype logger = Logger | NotLogger jsval

definition log_call :: "logger \<Rightarrow> exn + unit" where
  "log_call l = (case l of Logger \<Rightarrow> Inr () | NotLogger _ \<Rightarrow> Inl TypeError)"

text \<open>A call on the logger followed by \<^verbatim>\<open>return v\<close>.\<close>

definition log_return :: "logger \<Rightarrow> 'a \<Rightarrow> exn + 'a" where
  "log_return l v = (case log_call l of Inl e \<Rightarrow> Inl e | Inr _ \<Rightarrow> Inr v)"

text \<open>A call on the logger followed by \<^verbatim>\<open>throw e\<close>.\<close>

definition log_throw :: "logger \<Rightarrow> exn \<Rightarrow> exn + 'a" where
  "log_throw l e = (case log_call l of Inl e' \<Rightarrow> Inl e' | Inr _ \<Rightarrow> Inl e)"

subsection \<open>The module \<^verbatim>\<open>src/services/auth.js\<close>\<close>

text \<open>The constants of \<^verbatim>\<open>CONFIG\<close>.\<close>

definition COOKIE_NAME :: string where
  "COOKIE_NAME = ''auth_token''"

definition DEFAULT_EXPIRATION :: int where
  "DEFAULT_EXPIRATION = 8 * 60 * 60"

definition ALGORITHM :: string where
  "ALGORITHM = ''HS256''"

definition COOKIE_PATH :: string where
  "COOKIE_PATH = ''/admin''"

definition TOKEN_ISSUER :: string where
  "TOKEN_ISSUER = ''web-app''"

definition TOKEN_AUDIENCE :: string where
  "TOKEN_AUDIENCE = ''web-app-users''"

text \<open>
  \<^verbatim>\<open>getKey(secret)\<close>: throws \<^verbatim>\<open>Error('Invalid secret')\<close> unless the secret is a non-empty
  string, then imports its UTF-8 bytes as an HMAC key.
\<close>

definition getKey :: "jsval \<Rightarrow> exn + string" where
  "getKey secret =
     (case secret of
        Some (JStr s) \<Rightarrow>
          if s = [] then Inl (Error ''Invalid secret'') else importKey (TextEncoder_encode s)
      | _ \<Rightarrow> Inl (Error ''Invalid secret''))"

text \<open>
  \<^verbatim>\<open>createJwt(secret, payload = {}, logger)\<close>. The header is fixed. The payload is the
  caller's claims with \<^verbatim>\<open>iat\<close>, \<^verbatim>\<open>exp\<close>, \<^verbatim>\<open>iss\<close> and \<^verbatim>\<open>aud\<close> set after them:
  \<^verbatim>\<open>{ ...payload, iat: now, exp: now + CONFIG.DEFAULT_EXPIRATION, iss: ..., aud: ... }\<close>.
  (The platform lists the keys of an object that are array indices before the others; the
  order of the keys has no part in any result below.)
\<close>

definition jwtHeader :: json where
  "jwtHeader = JObj [(''alg'', JStr ALGORITHM), (''typ'', JStr ''JWT'')]"

definition jwtPayload :: "jsval \<Rightarrow> int \<Rightarrow> (string \<times> json) list" where
  "jwtPayload payload now =
     set_prop ''aud'' (JStr TOKEN_AUDIENCE)
       (set_prop ''iss'' (JStr TOKEN_ISSUER)
         (set_prop ''exp'' (JNum (now + DEFAULT_EXPIRATION))
           (set_prop ''iat'' (JNum now) (own_props payload))))"

text \<open>The signing of \<^verbatim>\<open>partialToken\<close> and the token returned:
  \<^verbatim>\<open>`${partialToken}.${signature}`\<close>.\<close>

definition signToken :: "string \<Rightarrow> string \<Rightarrow> string" where
  "signToken key partialToken =
     (let signatureBuffer = subtle_sign key (TextEncoder_encode partialToken);
          signature = base64UrlEncode signatureBuffer
      in partialToken @ ''.'' @ signature)"

text \<open>The body of the \<^verbatim>\<open>try\<close> block of \<^verbatim>\<open>createJwt\<close>.\<close>

definition createJwt_try :: "jsval \<Rightarrow> jsval \<Rightarrow> int \<Rightarrow> exn + string" where
  "createJwt_try secret payload now =
     (case getKey secret of
        Inl e \<Rightarrow> Inl e
      | Inr key \<Rightarrow>
          (let encodedHeader = base64UrlEncode (stringify jwtHeader);
               encodedPayload = base64UrlEncode (stringify (JObj (jwtPayload payload now)));
               partialToken = encodedHeader @ ''.'' @ encodedPayload
           in Inr (signToken key partialToken)))"

definition createJwt :: "jsval \<Rightarrow> jsval \<Rightarrow> logger \<Rightarrow> int \<Rightarrow> exn + string" where
  "createJwt secret payload logger now =
     (if \<not> truthy secret then log_throw logger (Error ''Secret is required to create JWT.'')
      else
        (case createJwt_try secret payload now of
           Inl e \<Rightarrow> log_throw logger (Error ''Failed to create JWT'')
         | Inr token \<Rightarrow> Inr token))"

text \<open>
  \<^verbatim>\<open>verifyJwt(secret, token, logger)\<close>. First the checks on the decoded payload, the end
  of the \<^verbatim>\<open>try\<close> block:
  \<^verbatim>\<open>if (payloadData.exp && payloadData.exp < now) ... return false;\<close>
  \<^verbatim>\<open>if (payloadData.iat && payloadData.iat > now) ... return false;\<close>
  \<^verbatim>\<open>if (payloadData.iss !== CONFIG.TOKEN_ISSUER || payloadData.aud !== CONFIG.TOKEN_AUDIENCE)\<close>
  \<^verbatim>\<open>... return false;\<close> and then \<^verbatim>\<open>return true;\<close>
\<close>

definition validateClaims :: "json \<Rightarrow> logger \<Rightarrow> int \<Rightarrow> exn + json" where
  "validateClaims payloadData logger now =
     (case get_prop payloadData ''exp'' of
        Inl e \<Rightarrow> Inl e
      | Inr exp \<Rightarrow>
          if truthy exp \<and> js_lt exp now then log_return logger (JBool False)
          else
            (case get_prop payloadData ''iat'' of
               Inl e \<Rightarrow> Inl e
             | Inr iat \<Rightarrow>
                 if truthy iat \<and> js_gt iat now then log_return logger (JBool False)
                 else
                   (case get_prop payloadData ''iss'' of
                      Inl e \<Rightarrow> Inl e
                    | Inr iss \<Rightarrow>
                        (case get_prop payloadData ''aud'' of
                           Inl e \<Rightarrow> Inl e
                         | Inr aud \<Rightarrow>
                             if iss \<noteq> Some (JStr TOKEN_ISSUER) \<or> aud \<noteq> Some (JStr TOKEN_AUDIENCE)
                             then log_return logger (JBool False)
                             else Inr (JBool True)))))"

text \<open>
  The \<^verbatim>\<open>try\<close> block: key, \<^verbatim>\<open>const [header, payload, signature] = token.split('.')\<close>,
  the test of the three segments, the signature (whose failure is reported on the console,
  not on the logger), the payload.
\<close>

definition verifyJwt_try :: "jsval \<Rightarrow> jsval \<Rightarrow> logger \<Rightarrow> int \<Rightarrow> exn + json" where
  "verifyJwt_try secret token logger now =
     (case getKey secret of
        Inl e \<Rightarrow> Inl e
      | Inr key \<Rightarrow>
          (case js_split token of
             Inl e \<Rightarrow> Inl e
           | Inr parts \<Rightarrow>
               (case (nth_opt parts 0, nth_opt parts 1, nth_opt parts 2) of
                  (Some header, Some payload, Some signature) \<Rightarrow>
                    if header = [] \<or> payload = [] \<or> signature = []
                    then log_return logger (JBool False)
                    else
                      (case base64UrlDecode signature of
                         Inl e \<Rightarrow> Inl e
                       | Inr signatureBuffer \<Rightarrow>
                           if \<not> subtle_verify key signatureBuffer
                                 (TextEncoder_encode (header @ ''.'' @ payload))
                           then Inr (JBool False)
                           else
                             (case base64UrlDecode payload of
                                Inl e \<Rightarrow> Inl e
                              | Inr text \<Rightarrow>
                                  (case JSON_parse text of
                                     None \<Rightarrow> Inl SyntaxError
                                   | Some payloadData \<Rightarrow> validateClaims payloadData logger now)))
                | _ \<Rightarrow> log_return logger (JBool False))))"

text \<open>The whole function: the test before the \<^verbatim>\<open>try\<close>, and the \<^verbatim>\<open>catch\<close>, which
  calls the logger and returns \<^verbatim>\<open>false\<close>.\<close>

definition verifyJwt :: "jsval \<Rightarrow> jsval \<Rightarrow> logger \<Rightarrow> int \<Rightarrow> exn + json" where
  "verifyJwt secret token logger now =
     (if \<not> truthy secret \<or> \<not> truthy token then log_return logger (JBool False)
      else
        (case verifyJwt_try secret token logger now of
           Inl e \<Rightarrow> log_return logger (JBool False)
         | Inr r \<Rightarrow> Inr r))"

text \<open>
  \<^verbatim>\<open>createAuthCookie(token, maxAge, options = {})\<close>. The options are a record of the four
  properties that the function reads, \<open>None\<close> for one that is not given. A number of the
  model passes the test \<^verbatim>\<open>typeof maxAge !== 'number' || isNaN(maxAge)\<close>, every other value
  fails it; \<^verbatim>\<open>Max-Age\<close> is the text that the template literal gives the number.
\<close>

record cookie_options =
  opt_path :: "string option"
  opt_domain :: "string option"
  opt_secure :: "bool option"
  opt_sameSite :: "string option"

definition no_options :: cookie_options where
  "no_options = \<lparr>opt_path = None, opt_domain = None, opt_secure = None, opt_sameSite = None\<rparr>"

text \<open>\<^verbatim>\<open>parts.join(sep)\<close>.\<close>

fun join :: "string \<Rightarrow> string list \<Rightarrow> string" where
  "join sep [] = []"
| "join sep [x] = x"
| "join sep (x # y # ys) = x @ sep @ join sep (y # ys)"

definition createAuthCookie :: "jsval \<Rightarrow> jsval \<Rightarrow> cookie_options \<Rightarrow> exn + string" where
  "createAuthCookie token maxAge options =
     (case maxAge of
        Some (JNum n) \<Rightarrow>
          if \<not> truthy token then Inl (Error ''Token and maxAge are required'')
          else
            (let path = (case opt_path options of None \<Rightarrow> COOKIE_PATH | Some p \<Rightarrow> p);
                 domain = (case opt_domain options of None \<Rightarrow> [] | Some d \<Rightarrow> d);
                 secure = (case opt_secure options of None \<Rightarrow> True | Some b \<Rightarrow> b);
                 sameSite = (case opt_sameSite options of None \<Rightarrow> ''Strict'' | Some s \<Rightarrow> s)
             in Inr (join ''; ''
                  ([COOKIE_NAME @ ''='' @ template_string token,
                    ''Path='' @ path,
                    ''Max-Age='' @ template_string maxAge,
                    ''HttpOnly=true'',
                    ''Secure='' @ (if secure then ''true'' else ''false''),
                    ''SameSite='' @ sameSite]
                   @ (if domain \<noteq> [] then [''Domain='' @ domain] else []))))
      | _ \<Rightarrow> Inl (Error ''Token and maxAge are required''))"

text \<open>
  \<^verbatim>\<open>refreshJwt(secret, token, logger)\<close>. It calls \<^verbatim>\<open>verifyJwt(secret, token)\<close> with two
  arguments, so that the logger of that call is \<^verbatim>\<open>undefined\<close>. The clock is read once by
  \<^verbatim>\<open>verifyJwt\<close> and once by \<^verbatim>\<open>createJwt\<close>: \<open>now1\<close> and \<open>now2\<close>.
  The rest pattern \<^verbatim>\<open>const { iat, exp, ...originalPayload } = payload\<close> keeps the own
  properties of \<open>payload\<close> other than the two named.
\<close>

definition rest_props :: "string list \<Rightarrow> json \<Rightarrow> (string \<times> json) list" where
  "rest_props ks v = filter (\<lambda>(k, _). k \<notin> set ks) (own_props (Some v))"

definition refreshJwt_try :: "jsval \<Rightarrow> jsval \<Rightarrow> logger \<Rightarrow> int \<Rightarrow> int \<Rightarrow> exn + json" where
  "refreshJwt_try secret token logger now1 now2 =
     (case verifyJwt secret token (NotLogger None) now1 of
        Inl e \<Rightarrow> Inl e
      | Inr payload \<Rightarrow>
          if \<not> truthy (Some payload) then Inr JNull
          else
            (let originalPayload = rest_props [''iat'', ''exp''] payload in
             case createJwt secret (Some (JObj originalPayload)) logger now2 of
               Inl e \<Rightarrow> Inl e
             | Inr t \<Rightarrow> Inr (JStr t)))"

definition refreshJwt :: "jsval \<Rightarrow> jsval \<Rightarrow> logger \<Rightarrow> int \<Rightarrow> int \<Rightarrow> exn + json" where
  "refreshJwt secret token logger now1 now2 =
     (if \<not> truthy secret \<or> \<not> truthy token then log_return logger JNull
      else
        (case refreshJwt_try secret token logger now1 now2 of
           Inl e \<Rightarrow> log_return logger JNull
         | Inr r \<Rightarrow> Inr r))"

subsection \<open>The shorter variant of the module\<close>

text \<open>
  The repository carries a second, older file with the same functions: no logger, no
  claims of the caller, a lifetime parameter, and \<^verbatim>\<open>exp\<close> as the only claim. Its functions
  have the names of the module's; here they end in \<open>0\<close>. The secret is a string, as the
  callers pass it.
\<close>

definition getKey0 :: "string \<Rightarrow> exn + string" where
  "getKey0 secret = importKey (TextEncoder_encode secret)"

text \<open>\<^verbatim>\<open>createJwt(secret, expirationInSeconds = 8 * 60 * 60)\<close>.\<close>

definition createJwt0 :: "string \<Rightarrow> int option \<Rightarrow> int \<Rightarrow> exn + string" where
  "createJwt0 secret expirationInSeconds now =
     (case getKey0 secret of
        Inl e \<Rightarrow> Inl e
      | Inr key \<Rightarrow>
          (let lifetime = (case expirationInSeconds of None \<Rightarrow> 8 * 60 * 60 | Some n \<Rightarrow> n);
               header = JObj [(''alg'', JStr ''HS256''), (''typ'', JStr ''JWT'')];
               payload = JObj [(''exp'', JNum (now + lifetime))];
               partialToken =
                 base64UrlEncode (stringify header) @ ''.'' @ base64UrlEncode (stringify payload)
           in Inr (signToken key partialToken)))"

text \<open>\<^verbatim>\<open>verifyJwt(secret, token)\<close>: the result is
  \<^verbatim>\<open>payloadData.exp > Math.floor(Date.now() / 1000)\<close>.\<close>

definition verifyJwt0_try :: "string \<Rightarrow> jsval \<Rightarrow> int \<Rightarrow> exn + json" where
  "verifyJwt0_try secret token now =
     (case getKey0 secret of
        Inl e \<Rightarrow> Inl e
      | Inr key \<Rightarrow>
          (case js_split token of
             Inl e \<Rightarrow> Inl e
           | Inr parts \<Rightarrow>
               (case (nth_opt parts 0, nth_opt parts 1, nth_opt parts 2) of
                  (Some header, Some payload, Some signature) \<Rightarrow>
                    if header = [] \<or> payload = [] \<or> signature = [] then Inr (JBool False)
                    else
                      (case base64UrlDecode signature of
                         Inl e \<Rightarrow> Inl e
                       | Inr signatureBuffer \<Rightarrow>
                           if \<not> subtle_verify key signatureBuffer
                                 (TextEncoder_encode (header @ ''.'' @ payload))
                           then Inr (JBool False)
                           else
                             (case base64UrlDecode payload of
                                Inl e \<Rightarrow> Inl e
                              | Inr text \<Rightarrow>
                                  (case JSON_parse text of
                                     None \<Rightarrow> Inl SyntaxError
                                   | Some payloadData \<Rightarrow>
                                       (case get_prop payloadData ''exp'' of
                                          Inl e \<Rightarrow> Inl e
                                        | Inr exp \<Rightarrow> Inr (JBool (js_gt exp now))))))
                | _ \<Rightarrow> Inr (JBool False))))"

definition verifyJwt0 :: "string \<Rightarrow> jsval \<Rightarrow> int \<Rightarrow> exn + json" where
  "verifyJwt0 secret token now =
     (if \<not> truthy token then Inr (JBool False)
      else
        (case verifyJwt0_try secret token now of
           Inl e \<Rightarrow> Inr (JBool False)
         | Inr r \<Rightarrow> Inr r))"

text \<open>\<^verbatim>\<open>createAuthCookie(token, maxAge)\<close>: one template literal.\<close>

definition createAuthCookie0 :: "jsval \<Rightarrow> jsval \<Rightarrow> string" where
  "createAuthCookie0 token maxAge =
     ''auth_token='' @ template_string token @ ''; HttpOnly; Secure; Path=/admin; Max-Age=''
       @ template_string maxAge @ ''; SameSite=Strict''"

subsection \<open>The claims that a token carries\<close>

text \<open>The payload of a token, decoded as \<^verbatim>\<open>verifyJwt\<close> decodes it: the second segment,
  through \<^const>\<open>base64UrlDecode\<close> and \<^verbatim>\<open>JSON.parse\<close>.\<close>

definition token_payload :: "string \<Rightarrow> json option" where
  "token_payload token =
     (case nth_opt (split_on CHR ''.'' token) 1 of
        None \<Rightarrow> None
      | Some p \<Rightarrow>
          (case base64UrlDecode p of
             Inl e \<Rightarrow> None
           | Inr text \<Rightarrow> JSON_parse text))"

text \<open>The value of a claim in a decoded payload.\<close>

definition claim :: "json \<Rightarrow> string \<Rightarrow> jsval" where
  "claim payloadData k = (case payloadData of JObj ms \<Rightarrow> map_of ms k | _ \<Rightarrow> None)"

section \<open>Properties\<close>

subsection \<open>Base64\<close>

lemma of_char_lt_256: "(of_char c :: nat) < 256"
proof -
  have "(of_char c :: nat) mod 256 = of_char c"
    by (rule of_char_mod_256)
  moreover have "(of_char c :: nat) mod 256 < 256"
    by simp
  ultimately show ?thesis
    by simp
qed

lemma b64_index_char: "n < 64 \<Longrightarrow> b64_index (b64_char n) = Some n"
  by (auto simp: b64_index_def b64_char_def Let_def)

lemma sextet_bounds:
  fixes x y z :: nat
  assumes "x < 256" "y < 256" "z < 256"
  shows "x div 4 < 64" "x mod 4 * 16 < 64" "x mod 4 * 16 + y div 16 < 64"
    "y mod 16 * 4 < 64" "y mod 16 * 4 + z div 64 < 64" "z mod 64 < 64"
proof -
  have a: "x mod 4 < 4" "y mod 16 < 16"
    by simp_all
  have b: "y div 16 < 16" "z div 64 < 4"
    using assms by (simp_all add: div_less_iff_less_mult)
  show "x div 4 < 64"
    using assms by (simp add: div_less_iff_less_mult)
  show "x mod 4 * 16 < 64"
    using a by linarith
  show "x mod 4 * 16 + y div 16 < 64"
    using a b by linarith
  show "y mod 16 * 4 < 64"
    using a by linarith
  show "y mod 16 * 4 + z div 64 < 64"
    using a b by linarith
  show "z mod 64 < 64"
    by simp
qed

lemma sextets_lt_64: "n \<in> set (sextets s) \<Longrightarrow> n < 64"
proof (induction s arbitrary: n rule: sextets.induct)
  case 1
  then show ?case by simp
next
  case (2 a)
  note b = sextet_bounds [OF of_char_lt_256 [of a] of_char_lt_256 [of a] of_char_lt_256 [of a]]
  from 2 b show ?case by (auto simp: Let_def)
next
  case (3 a b)
  note b = sextet_bounds [OF of_char_lt_256 [of a] of_char_lt_256 [of b] of_char_lt_256 [of b]]
  from 3 b show ?case by (auto simp: Let_def)
next
  case (4 a b c r)
  note b = sextet_bounds [OF of_char_lt_256 [of a] of_char_lt_256 [of b] of_char_lt_256 [of c]]
  from 4 b show ?case by (auto simp: Let_def)
qed

lemma octet_hi:
  "x < 256 \<Longrightarrow> y < 256 \<Longrightarrow> x div 4 * 4 + (x mod 4 * 16 + y div 16) div 16 = (x::nat)"
  by simp

lemma octet_hi1: "x div 4 * 4 + (x mod 4 * 16) div 16 = (x::nat)"
  by simp

lemma octet_mid: "y < 256 \<Longrightarrow> z < 256 \<Longrightarrow>
  (x mod 4 * 16 + y div 16) mod 16 * 16 + (y mod 16 * 4 + z div 64) div 4 = (y::nat)"
  by (simp add: mod_mult2_eq)

lemma octet_mid2: "y < 256 \<Longrightarrow>
  (x mod 4 * 16 + y div 16) mod 16 * 16 + (y mod 16 * 4) div 4 = (y::nat)"
  by (simp add: mod_mult2_eq)

lemma octet_lo: "z < 256 \<Longrightarrow> (y mod 16 * 4 + z div 64) mod 4 * 64 + z mod 64 = (z::nat)"
  by simp

lemma octets_sextets: "octets (sextets s) = s"
proof (induction s rule: sextets.induct)
  case 1
  then show ?case by simp
next
  case (2 a)
  show ?case
    by (simp only: sextets.simps octets.simps Let_def octet_hi1 char_of_char)
next
  case (3 a b)
  show ?case
    by (simp only: sextets.simps octets.simps Let_def char_of_char
        octet_hi [OF of_char_lt_256 of_char_lt_256] octet_mid2 [OF of_char_lt_256])
next
  case (4 a b c r)
  then show ?case
    by (simp only: sextets.simps octets.simps Let_def char_of_char append_Cons append_Nil
        octet_hi [OF of_char_lt_256 of_char_lt_256] octet_mid [OF of_char_lt_256 of_char_lt_256]
        octet_lo [OF of_char_lt_256])
qed

lemma length_sextets_mod4: "length (sextets s) mod 4 \<in> {0, 2, 3}"
  by (induction s rule: sextets.induct) (simp_all add: Let_def)

lemma b64_index_Some_simps:
  assumes "b64_index c = Some n"
  shows "c \<noteq> CHR ''=''" "c \<noteq> CHR ''-''" "c \<noteq> CHR ''_''" "c \<noteq> CHR ''.''"
    "\<not> is_ascii_whitespace c"
proof -
  have "b64_index CHR ''='' = None" "b64_index CHR ''-'' = None" "b64_index CHR ''_'' = None"
    "b64_index CHR ''.'' = None"
    by (simp_all add: b64_index_def)
  with assms show "c \<noteq> CHR ''=''" "c \<noteq> CHR ''-''" "c \<noteq> CHR ''_''" "c \<noteq> CHR ''.''"
    by auto
  show "\<not> is_ascii_whitespace c"
    using assms by (auto simp: is_ascii_whitespace_def b64_index_def Let_def split: if_splits)
qed

lemma those_b64_index_sextets:
  "those (map b64_index (map b64_char (sextets s))) = Some (sextets s)"
proof -
  have "(\<forall>n \<in> set ns. n < 64) \<Longrightarrow> those (map b64_index (map b64_char ns)) = Some ns" for ns
    by (induction ns) (simp_all add: b64_index_char)
  then show ?thesis
    using sextets_lt_64 by blast
qed

lemma pad4_eq: "pad4 t = t @ replicate ((4 - length t mod 4) mod 4) CHR ''=''"
proof (induction t rule: pad4.induct)
  case (1 str)
  show ?case
  proof (cases "length str mod 4 = 0")
    case True
    then show ?thesis
      by (simp add: pad4.simps)
  next
    case False
    have "length str mod 4 < 4"
      by simp
    with False consider "length str mod 4 = 1" | "length str mod 4 = 2" | "length str mod 4 = 3"
      by linarith
    then have "replicate ((4 - length str mod 4) mod 4) CHR ''=''
      = CHR ''='' # replicate ((4 - Suc (length str) mod 4) mod 4) CHR ''=''"
      by cases (simp_all add: mod_Suc numeral_3_eq_3 numeral_2_eq_2)
    with False 1 show ?thesis
      by (subst pad4.simps) simp
  qed
qed

lemma b64_text_chars:
  assumes "c \<in> set (map b64_char (sextets s))"
  shows "c \<noteq> CHR ''=''" "c \<noteq> CHR ''-''" "c \<noteq> CHR ''_''" "c \<noteq> CHR ''.''"
    "\<not> is_ascii_whitespace c"
proof -
  from assms obtain n where "n \<in> set (sextets s)" "c = b64_char n"
    by auto
  then have "b64_index c = Some n"
    by (simp add: b64_index_char sextets_lt_64)
  then show "c \<noteq> CHR ''=''" "c \<noteq> CHR ''-''" "c \<noteq> CHR ''_''" "c \<noteq> CHR ''.''"
    "\<not> is_ascii_whitespace c"
    by (rule b64_index_Some_simps)+
qed

lemma strip_padding_padded:
  assumes len: "length (t @ replicate k CHR ''='') mod 4 = 0"
    and k: "k \<le> 2"
    and t: "\<And>c. c \<in> set t \<Longrightarrow> c \<noteq> CHR ''=''"
  shows "strip_padding (t @ replicate k CHR ''='') = t"
proof -
  have last_t: "t \<noteq> [] \<Longrightarrow> last t \<noteq> CHR ''=''"
    using t last_in_set by blast
  from k consider "k = 0" | "k = 1" | "k = 2"
    by linarith
  then show ?thesis
  proof cases
    case 1
    with len last_t show ?thesis
      by (cases "t = []") (simp_all add: strip_padding_def)
  next
    case 2
    with len last_t show ?thesis
      by (cases "t = []") (simp_all add: strip_padding_def)
  next
    case 3
    then have r: "replicate k CHR ''='' = ''==''"
      by (simp add: numeral_2_eq_2)
    have "t @ ''=='' = (t @ ''='') @ ''=''"
      by simp
    then have "butlast (t @ ''=='') = t @ ''=''"
      by (simp only: butlast_snoc)
    with len r show ?thesis
      by (simp add: strip_padding_def)
  qed
qed

lemma btoa_padding:
  "(4 - length (map b64_char (sextets s)) mod 4) mod 4 \<le> 2"
  "length (btoa s) mod 4 = 0"
proof -
  let ?n = "length (sextets s)"
  have m: "?n mod 4 \<in> {0, 2, 3}"
    by (rule length_sextets_mod4)
  then consider "?n mod 4 = 0" | "?n mod 4 = 2" | "?n mod 4 = 3"
    by auto
  then show "(4 - length (map b64_char (sextets s)) mod 4) mod 4 \<le> 2"
    by cases simp_all
  have "(?n + k) mod 4 = (?n mod 4 + k) mod 4" for k
    by (simp add: mod_add_left_eq)
  then have "(?n + (4 - ?n mod 4) mod 4) mod 4 = 0"
    using m by auto
  then show "length (btoa s) mod 4 = 0"
    by (simp add: btoa_def Let_def)
qed

lemma atob_btoa: "atob (btoa s) = Inr s"
proof -
  let ?t = "map b64_char (sextets s)"
  let ?k = "(4 - length ?t mod 4) mod 4"
  have eq: "btoa s = ?t @ replicate ?k CHR ''=''"
    by (simp add: btoa_def Let_def)
  have "\<not> is_ascii_whitespace CHR ''=''"
    by (simp add: is_ascii_whitespace_def)
  then have nows: "filter (\<lambda>c. \<not> is_ascii_whitespace c) (btoa s) = btoa s"
    unfolding eq filter_id_conv using b64_text_chars(5) [of _ s] by auto
  have strip: "strip_padding (btoa s) = ?t"
    unfolding eq
  proof (rule strip_padding_padded)
    show "length (?t @ replicate ?k CHR ''='') mod 4 = 0"
      using btoa_padding(2) [of s] by (simp only: eq)
    show "?k \<le> 2"
      by (rule btoa_padding(1))
    show "c \<noteq> CHR ''=''" if "c \<in> set ?t" for c
      using that by (rule b64_text_chars(1))
  qed
  have "length (sextets s) mod 4 \<in> {0, 2, 3}"
    by (rule length_sextets_mod4)
  then have ne1: "length (sextets s) mod 4 \<noteq> Suc 0"
    by auto
  show ?thesis
    by (simp add: atob_def nows strip ne1 those_b64_index_sextets octets_sextets del: map_map)
qed

lemma base64UrlEncode_eq: "base64UrlEncode s = map url_char (map b64_char (sextets s))"
proof -
  let ?t = "map b64_char (sextets s)"
  let ?k = "(4 - length ?t mod 4) mod 4"
  have r: "replace_char CHR ''/'' CHR ''_'' (replace_char CHR ''+'' CHR ''-'' xs) = map url_char xs"
    for xs
    by (simp add: replace_char_def url_char_def)
  have f: "(\<And>c. c \<in> set xs \<Longrightarrow> c \<noteq> CHR ''='') \<Longrightarrow>
    filter (\<lambda>c. c \<noteq> CHR ''='') (map url_char (xs @ replicate k CHR ''='')) = map url_char xs"
    for xs k
    by (induction xs) (auto simp: url_char_def)
  have "filter (\<lambda>c. c \<noteq> CHR ''='') (map url_char (?t @ replicate ?k CHR ''=''))
    = map url_char ?t"
    by (rule f) (rule b64_text_chars(1))
  then show ?thesis
    by (simp only: base64UrlEncode_def btoa_def Let_def r)
qed

lemma url_char_inverse:
  "(\<And>c. c \<in> set t \<Longrightarrow> c \<noteq> CHR ''-'' \<and> c \<noteq> CHR ''_'') \<Longrightarrow>
   replace_char CHR ''_'' CHR ''/'' (replace_char CHR ''-'' CHR ''+'' (map url_char t)) = t"
  by (induction t) (auto simp: replace_char_def url_char_def)

lemma base64Url_decode_encode: "base64UrlDecode (base64UrlEncode s) = Inr s"
proof -
  let ?t = "map b64_char (sextets s)"
  have "replace_char CHR ''_'' CHR ''/'' (replace_char CHR ''-'' CHR ''+'' (map url_char ?t)) = ?t"
    by (rule url_char_inverse) (use b64_text_chars(2,3) [of _ s] in blast)
  then have "base64UrlDecode (base64UrlEncode s) = atob (pad4 ?t)"
    by (simp only: base64UrlDecode_def base64UrlEncode_eq)
  also have "pad4 ?t = btoa s"
    by (simp only: pad4_eq btoa_def Let_def)
  finally show ?thesis
    by (simp only: atob_btoa)
qed

subsection \<open>Decimal numerals\<close>

lemma is_digit_digit_char: "d < 10 \<Longrightarrow> is_digit (digit_char d)"
  by (simp add: is_digit_def digit_char_def)

lemma digit_val_digit_char: "d < 10 \<Longrightarrow> (of_char (digit_char d) :: nat) - 48 = d"
  by (simp add: digit_char_def)

lemma show_nat_digits: "list_all is_digit (show_nat n)"
proof (induction n rule: show_nat.induct)
  case (1 n)
  show ?case
  proof (cases "n < 10")
    case True
    then show ?thesis
      by (subst show_nat.simps) (simp add: is_digit_digit_char)
  next
    case False
    with 1 show ?thesis
      by (subst show_nat.simps) (simp add: is_digit_digit_char)
  qed
qed

lemma show_nat_value: "foldl (\<lambda>a c. a * 10 + ((of_char c :: nat) - 48)) 0 (show_nat n) = n"
proof (induction n rule: show_nat.induct)
  case (1 n)
  show ?case
  proof (cases "n < 10")
    case True
    then show ?thesis
      by (subst show_nat.simps) (simp add: digit_val_digit_char)
  next
    case False
    with 1 show ?thesis
      by (subst show_nat.simps) (simp add: digit_val_digit_char)
  qed
qed

lemma show_nat_head: "\<exists>c cs. show_nat n = c # cs \<and> is_digit c \<and> (0 < n \<longrightarrow> c \<noteq> CHR ''0'')"
proof (induction n rule: show_nat.induct)
  case (1 n)
  show ?case
  proof (cases "n < 10")
    case True
    have "digit_char n \<noteq> CHR ''0''" if "0 < n"
    proof
      assume "digit_char n = CHR ''0''"
      then have "(of_char (digit_char n) :: nat) = of_char CHR ''0''"
        by (rule arg_cong)
      with True that show False
        by (simp add: digit_char_def)
    qed
    then have "0 < n \<longrightarrow> digit_char n \<noteq> CHR ''0''"
      by blast
    with True show ?thesis
      by (subst show_nat.simps) (simp add: is_digit_digit_char)
  next
    case False
    then have "0 < n div 10"
      by simp
    with 1 False obtain c cs where "show_nat (n div 10) = c # cs" "is_digit c" "c \<noteq> CHR ''0''"
      by auto
    with False show ?thesis
      by (subst show_nat.simps) simp
  qed
qed

lemma char_of_eqI: "(of_char c :: nat) = n \<Longrightarrow> char_of n = c"
  by (erule subst) (rule char_of_char)

lemma show_nat_0: "show_nat 0 = ''0''"
  by (subst show_nat.simps) (simp add: digit_char_def char_of_eqI)

lemma parse_digits_append:
  "list_all is_digit ds \<Longrightarrow>
   parse_digits (ds @ r) acc = parse_digits r (foldl (\<lambda>a c. a * 10 + ((of_char c :: nat) - 48)) acc ds)"
  by (induction ds arbitrary: acc) simp_all

lemma parse_digits_stop: "delim r \<Longrightarrow> parse_digits r acc = (acc, r)"
  by (cases r) (simp_all add: delim_def)

lemma parse_nat_show_nat:
  assumes "delim r"
  shows "parse_nat (show_nat n @ r) = Some (n, r)"
proof (cases "n = 0")
  case True
  then show ?thesis
    by (simp add: show_nat_0 parse_nat_def)
next
  case False
  then obtain c cs where s: "show_nat n = c # cs" "is_digit c" "c \<noteq> CHR ''0''"
    using show_nat_head [of n] by auto
  then have "parse_nat (show_nat n @ r) = Some (parse_digits (show_nat n @ r) 0)"
    by (simp add: parse_nat_def)
  also have "parse_digits (show_nat n @ r) 0 = (n, r)"
    using assms by (simp add: parse_digits_append show_nat_digits show_nat_value parse_digits_stop)
  finally show ?thesis .
qed

lemma int_only_delim: "delim r \<Longrightarrow> int_only (Some (v, r)) = Some (v, r)"
  by (cases r) (simp_all add: int_only_def delim_def)

lemma parse_number_show_int:
  assumes "delim r"
  shows "parse_number (show_int i @ r) = Some (JNum i, r)"
proof (cases "i < 0")
  case True
  then show ?thesis
    using assms by (simp add: parse_number_def show_int_def parse_nat_show_nat int_only_delim)
next
  case False
  obtain c cs where s: "show_nat (nat i) = c # cs" "is_digit c"
    using show_nat_head [of "nat i"] by auto
  then have "c \<noteq> CHR ''-''"
    by (auto simp: is_digit_def)
  moreover have "parse_nat (c # cs @ r) = Some (nat i, r)"
    using parse_nat_show_nat [OF assms, of "nat i"] s by simp
  ultimately show ?thesis
    using False s assms by (simp add: parse_number_def show_int_def int_only_delim)
qed

lemma show_int_head: "\<exists>c cs. show_int i = c # cs \<and> (c = CHR ''-'' \<or> is_digit c)"
  using show_nat_head [of "nat i"] by (auto simp: show_int_def)

subsection \<open>String literals\<close>

lemma hex_val_hex_char: "d < 16 \<Longrightarrow> hex_val (hex_char d) = Some d"
  by (auto simp: hex_val_def hex_char_def Let_def)

lemma hex_val_0: "hex_val CHR ''0'' = Some 0"
  by (simp add: hex_val_def)

lemma parse_chars_quote_char:
  "parse_chars (quote_char c @ t) = map_option (\<lambda>(x, u). (c # x, u)) (parse_chars t)"
proof (cases "c \<in> {CHR 0x22, CHR 0x5C, CHR 0x08, CHR 0x0C, CHR 0x0A, CHR 0x0D, CHR 0x09}")
  case True
  then show ?thesis
    by (auto simp: quote_char_def unescape_def)
next
  case False
  show ?thesis
  proof (cases "(of_char c :: nat) < 32")
    case True
    let ?n = "of_char c :: nat"
    have d: "?n div 16 < 16" "?n mod 16 < 16"
      using True by simp_all
    have "char_of (?n div 16 * 16 + ?n mod 16) = c"
      by simp
    then have u: "unicode_escape [CHR ''0'', CHR ''0'', hex_char (?n div 16), hex_char (?n mod 16)]
      = Some c"
      by (simp add: unicode_escape_def hex_val_0 hex_val_hex_char d)
    from False True show ?thesis
      by (simp add: quote_char_def u)
  next
    case ge: False
    with False show ?thesis
      by (simp add: quote_char_def)
  qed
qed

lemma parse_chars_quoted:
  "parse_chars (concat (map quote_char s) @ CHR 0x22 # r) = Some (s, r)"
  by (induction s) (simp_all add: parse_chars_quote_char)

subsection \<open>Values\<close>

lemma value_start_simps:
  assumes "value_start c"
  shows "\<not> is_json_ws c" "c \<noteq> CHR '']''" "c \<noteq> CHR ''}''" "c \<noteq> CHR '',''" "c \<noteq> CHR '':''"
  using assms by (auto simp: value_start_def is_digit_def is_json_ws_def)

lemma stringify_head: "\<exists>c cs. stringify v = c # cs \<and> value_start c"
proof (cases v)
  case (JNum i)
  then show ?thesis
    using show_int_head [of i] by (auto simp: value_start_def)
qed (auto simp: value_start_def quote_def)

lemma stringify_elements_head:
  "xs \<noteq> [] \<Longrightarrow> \<exists>c cs. stringify_elements xs @ t = c # cs \<and> value_start c"
proof (cases xs)
  case Nil
  then show "xs \<noteq> [] \<Longrightarrow> ?thesis" by simp
next
  case (Cons x ys)
  obtain c cs where "stringify x = c # cs" "value_start c"
    using stringify_head by blast
  with Cons show ?thesis
    by (cases ys) auto
qed

lemma stringify_members_head:
  "ms \<noteq> [] \<Longrightarrow> \<exists>cs. stringify_members ms @ t = CHR 0x22 # cs"
proof (cases ms)
  case Nil
  then show "ms \<noteq> [] \<Longrightarrow> ?thesis" by simp
next
  case (Cons m ns)
  then show ?thesis
    by (cases m; cases ns) (auto simp: quote_def)
qed

lemma skip_ws_Cons: "\<not> is_json_ws c \<Longrightarrow> skip_ws (c # r) = c # r"
  by (simp add: skip_ws_def)

lemma set_prop_fresh: "k \<notin> fst ` set ps \<Longrightarrow> set_prop k v ps = ps @ [(k, v)]"
  by (induction ps) auto

lemma mk_obj_distinct:
  assumes "distinct (map fst ms)"
  shows "mk_obj ms = ms"
proof -
  have "distinct (map fst (acc @ ms)) \<Longrightarrow>
    foldl (\<lambda>acc (k, v). set_prop k v acc) acc ms = acc @ ms" for acc
  proof (induction ms arbitrary: acc)
    case Nil
    then show ?case by simp
  next
    case (Cons m ms)
    obtain k v where m: "m = (k, v)"
      by (cases m)
    with Cons.prems have "k \<notin> fst ` set acc"
      by auto
    then have "set_prop k v acc = acc @ [(k, v)]"
      by (rule set_prop_fresh)
    moreover have "distinct (map fst ((acc @ [(k, v)]) @ ms))"
      using Cons.prems m by simp
    ultimately show ?case
      using Cons.IH [of "acc @ [(k, v)]"] m by simp
  qed
  from this [of "[]"] assms show ?thesis
    by (simp add: mk_obj_def)
qed

lemma delim_simps:
  "delim (CHR '','' # r)" "delim (CHR '']'' # r)" "delim (CHR ''}'' # r)" "delim []"
  by (simp_all add: delim_def is_digit_def)

lemma parse_value_literal:
  "parse_value (''null'' @ r) = Some (JNull, r)"
  "parse_value (''true'' @ r) = Some (JBool True, r)"
  "parse_value (''false'' @ r) = Some (JBool False, r)"
  by (subst parse_value.simps, simp add: skip_ws_def is_json_ws_def)+

lemma parse_value_number:
  assumes "delim r"
  shows "parse_value (show_int i @ r) = Some (JNum i, r)"
proof -
  obtain c cs where s: "show_int i = c # cs" "c = CHR ''-'' \<or> is_digit c"
    using show_int_head by blast
  then have c: "\<not> is_json_ws c" "c \<noteq> CHR ''{''" "c \<noteq> CHR ''[''" "c \<noteq> CHR 0x22"
    "c \<noteq> CHR ''t''" "c \<noteq> CHR ''f''" "c \<noteq> CHR ''n''"
    by (auto simp: is_digit_def is_json_ws_def)
  have "parse_value (c # cs @ r) = parse_number (c # cs @ r)"
    by (subst parse_value.simps) (simp add: skip_ws_Cons c)
  then show ?thesis
    using parse_number_show_int [OF assms, of i] s by simp
qed

lemma parse_value_string: "parse_value (quote s @ r) = Some (JStr s, r)"
  by (subst parse_value.simps) (simp add: quote_def skip_ws_def is_json_ws_def parse_chars_quoted)

lemma stringify_nonempty: "stringify v \<noteq> []"
  using stringify_head [of v] by auto

lemma parse_stringify:
  "wf_json v \<Longrightarrow> delim r \<Longrightarrow> parse_value (stringify v @ r) = Some (v, r)"
  "xs \<noteq> [] \<Longrightarrow> wf_elements xs \<Longrightarrow>
     parse_elements (stringify_elements xs @ CHR '']'' # r1) = Some (xs, r1)"
  "ms \<noteq> [] \<Longrightarrow> wf_members ms \<Longrightarrow>
     parse_members (stringify_members ms @ CHR ''}'' # r2) = Some (ms, r2)"
proof (induction v and xs and ms arbitrary: r and r1 and r2
    rule: stringify_stringify_elements_stringify_members.induct)
  case 1
  show ?case
    using parse_value_literal(1) by simp
next
  case (2 b)
  show ?case
    using parse_value_literal(2,3) by (cases b) simp_all
next
  case (3 i)
  then show ?case
    by (simp add: parse_value_number)
next
  case (4 s)
  show ?case
    by (simp add: parse_value_string)
next
  case (5 xs)
  show ?case
  proof (cases "xs = []")
    case True
    then show ?thesis
      by (subst parse_value.simps) (simp add: skip_ws_def is_json_ws_def)
  next
    case False
    then obtain c cs where h: "stringify_elements xs @ CHR '']'' # r = c # cs" "value_start c"
      using stringify_elements_head by blast
    have "parse_elements (c # cs) = Some (xs, r)"
      unfolding h(1) [symmetric] using 5 False by simp
    then show ?thesis
      using h value_start_simps [OF h(2)]
      by (subst parse_value.simps) (simp add: skip_ws_def is_json_ws_def)
  qed
next
  case (6 ms)
  then have d: "mk_obj ms = ms"
    by (simp add: mk_obj_distinct)
  show ?case
  proof (cases "ms = []")
    case True
    then show ?thesis
      by (subst parse_value.simps) (simp add: skip_ws_def is_json_ws_def)
  next
    case False
    then obtain cs where h: "stringify_members ms @ CHR ''}'' # r = CHR 0x22 # cs"
      using stringify_members_head by blast
    have "parse_members (CHR 0x22 # cs) = Some (ms, r)"
      unfolding h [symmetric] using 6 False by simp
    then show ?thesis
      using h d
      by (subst parse_value.simps) (simp add: skip_ws_def is_json_ws_def)
  qed
next
  case 7
  then show ?case by simp
next
  case (8 x)
  then have "parse_value (stringify x @ CHR '']'' # r1) = Some (x, CHR '']'' # r1)"
    by (simp add: delim_simps)
  then show ?case
    using stringify_nonempty [of x]
    by (subst parse_elements.simps) (simp add: skip_ws_def is_json_ws_def)
next
  case (9 x y ys)
  let ?t = "stringify_elements (y # ys) @ CHR '']'' # r1"
  from 9 have "parse_value (stringify x @ CHR '','' # ?t) = Some (x, CHR '','' # ?t)"
    by (simp add: delim_simps)
  moreover from 9 have "parse_elements ?t = Some (y # ys, r1)"
    by simp
  ultimately show ?case
    using stringify_nonempty [of x]
    by (subst parse_elements.simps) (simp add: skip_ws_def is_json_ws_def)
next
  case 10
  then show ?case by simp
next
  case (11 k v)
  then have "parse_value (stringify v @ CHR ''}'' # r2) = Some (v, CHR ''}'' # r2)"
    by (simp add: delim_simps)
  then show ?case
    using stringify_nonempty [of v]
    by (subst parse_members.simps)
      (simp add: quote_def skip_ws_def is_json_ws_def parse_chars_quoted)
next
  case (12 k v m ms)
  let ?t = "stringify_members (m # ms) @ CHR ''}'' # r2"
  from 12 have "parse_value (stringify v @ CHR '','' # ?t) = Some (v, CHR '','' # ?t)"
    by (simp add: delim_simps)
  moreover from 12 have "parse_members ?t = Some (m # ms, r2)"
    by simp
  ultimately show ?case
    using stringify_nonempty [of v]
    by (subst parse_members.simps)
      (simp add: quote_def skip_ws_def is_json_ws_def parse_chars_quoted)
qed

theorem JSON_parse_stringify: "wf_json v \<Longrightarrow> JSON_parse (stringify v) = Some v"
  using parse_stringify(1) [of v "[]"] by (simp add: JSON_parse_def delim_simps skip_ws_def)

subsection \<open>Splitting a token\<close>

lemma split_on_no_sep: "c \<notin> set a \<Longrightarrow> split_on c a = [a]"
  by (induction a) auto

lemma split_on_append: "c \<notin> set a \<Longrightarrow> split_on c (a @ c # r) = a # split_on c r"
  by (induction a) auto

lemma split_on_three:
  assumes "c \<notin> set a" "c \<notin> set b" "c \<notin> set d"
  shows "split_on c (a @ [c] @ b @ [c] @ d) = [a, b, d]"
  using assms by (simp add: split_on_append split_on_no_sep)

lemma nth_opt_three:
  "nth_opt [a, b, d] 0 = Some a" "nth_opt [a, b, d] (Suc 0) = Some b"
  "nth_opt [a, b, d] 2 = Some d"
  by (simp_all add: nth_opt_def)

subsection \<open>The encoded segments\<close>

lemma url_char_not_dot: "c \<noteq> CHR ''.'' \<Longrightarrow> url_char c \<noteq> CHR ''.''"
  by (simp add: url_char_def)

lemma base64UrlEncode_no_dot: "CHR ''.'' \<notin> set (base64UrlEncode x)"
proof -
  have "url_char c \<noteq> CHR ''.''" if "c \<in> set (map b64_char (sextets x))" for c
    using that by (intro url_char_not_dot b64_text_chars(4))
  then show ?thesis
    unfolding base64UrlEncode_eq by (metis (no_types) imageE list.set_map)
qed

lemma sextets_nonempty: "x \<noteq> [] \<Longrightarrow> sextets x \<noteq> []"
  by (induction x rule: sextets.induct) (simp_all add: Let_def)

lemma base64UrlEncode_nonempty: "x \<noteq> [] \<Longrightarrow> base64UrlEncode x \<noteq> []"
  by (simp add: base64UrlEncode_eq sextets_nonempty)

subsection \<open>The key and the signature\<close>

lemma TextEncoder_encode_nonempty: "s \<noteq> [] \<Longrightarrow> TextEncoder_encode s \<noteq> []"
  by (cases s) (auto simp: TextEncoder_encode_def utf8_char_def Let_def)

lemma length_eight:
  assumes "length (st :: 'a list) = 8"
  obtains a b c d e f g h where "st = [a, b, c, d, e, f, g, h]"
proof -
  from assms have "\<exists>a b c d e f g h. st = [a, b, c, d, e, f, g, h]"
    by (simp add: numeral_eq_Suc length_Suc_conv) blast
  then show ?thesis
    using that by blast
qed

lemma length_round256: "length st = 8 \<Longrightarrow> length (round256 st kw) = 8"
  by (erule length_eight, cases kw) (simp add: Let_def)

lemma length_foldl_round256: "length st = 8 \<Longrightarrow> length (foldl round256 st kws) = 8"
  by (induction kws arbitrary: st) (simp_all add: length_round256)

lemma length_compress: "length st = 8 \<Longrightarrow> length (compress st block) = 8"
  by (simp add: compress_def length_foldl_round256)

lemma length_foldl_compress: "length st = 8 \<Longrightarrow> length (foldl compress st bs) = 8"
  by (induction bs arbitrary: st) (simp_all add: length_compress)

lemma length_sha256: "length (sha256 m) = 32"
proof -
  have "length (foldl compress H256 (blocks 64 (sha256_pad m))) = 8"
    by (rule length_foldl_compress) (simp add: H256_def)
  then obtain a b c d e f g h
    where "foldl compress H256 (blocks 64 (sha256_pad m)) = [a, b, c, d, e, f, g, h]"
    by (rule length_eight)
  then show ?thesis
    by (simp add: sha256_def word_bytes_def)
qed

lemma length_hmac_sha256: "length (hmac_sha256 key msg) = 32"
  by (simp add: hmac_sha256_def Let_def length_sha256)

lemma hmac_sha256_nonempty: "hmac_sha256 key msg \<noteq> []"
  using length_hmac_sha256 [of key msg] by auto

lemma getKey_string: "s \<noteq> [] \<Longrightarrow> getKey (Some (JStr s)) = Inr (TextEncoder_encode s)"
  by (simp add: getKey_def importKey_def TextEncoder_encode_nonempty)

subsection \<open>Verification of a token of three segments\<close>

text \<open>What the \<^verbatim>\<open>try\<close> block of \<^verbatim>\<open>verifyJwt\<close> computes on \<open>h.p.g\<close>.\<close>

lemma verifyJwt_try_segments:
  assumes "s \<noteq> []" "CHR ''.'' \<notin> set h" "CHR ''.'' \<notin> set p" "CHR ''.'' \<notin> set g"
  shows "verifyJwt_try (Some (JStr s)) (Some (JStr (h @ ''.'' @ p @ ''.'' @ g))) logger now =
    (if h = [] \<or> p = [] \<or> g = [] then log_return logger (JBool False)
     else
       (case base64UrlDecode g of
          Inl e \<Rightarrow> Inl e
        | Inr signatureBuffer \<Rightarrow>
            if \<not> subtle_verify (TextEncoder_encode s) signatureBuffer
                  (TextEncoder_encode (h @ ''.'' @ p))
            then Inr (JBool False)
            else
              (case base64UrlDecode p of
                 Inl e \<Rightarrow> Inl e
               | Inr text \<Rightarrow>
                   (case JSON_parse text of
                      None \<Rightarrow> Inl SyntaxError
                    | Some payloadData \<Rightarrow> validateClaims payloadData logger now))))"
proof -
  have "split_on CHR ''.'' (h @ ''.'' @ p @ ''.'' @ g) = [h, p, g]"
    using assms(2-4) by (rule split_on_three)
  then show ?thesis
    using assms(1)
    by (simp add: verifyJwt_try_def getKey_string js_split_def nth_opt_three del: split_on.simps)
qed

text \<open>On a token signed with the key of the secret, the signature passes and the result is
  that of the checks on the payload.\<close>

lemma verifyJwt_try_signed:
  assumes "s \<noteq> []" "h \<noteq> []" "p \<noteq> []" "CHR ''.'' \<notin> set h" "CHR ''.'' \<notin> set p"
  shows "verifyJwt_try (Some (JStr s))
      (Some (JStr (signToken (TextEncoder_encode s) (h @ ''.'' @ p)))) logger now =
    (case base64UrlDecode p of
       Inl e \<Rightarrow> Inl e
     | Inr text \<Rightarrow>
         (case JSON_parse text of
            None \<Rightarrow> Inl SyntaxError
          | Some payloadData \<Rightarrow> validateClaims payloadData logger now))"
proof -
  let ?g = "base64UrlEncode (hmac_sha256 (TextEncoder_encode s) (TextEncoder_encode (h @ ''.'' @ p)))"
  have t: "signToken (TextEncoder_encode s) (h @ ''.'' @ p) = h @ ''.'' @ p @ ''.'' @ ?g"
    by (simp add: signToken_def subtle_sign_def)
  have g: "?g \<noteq> []" "CHR ''.'' \<notin> set ?g"
    by (simp_all add: base64UrlEncode_nonempty hmac_sha256_nonempty base64UrlEncode_no_dot)
  show ?thesis
    unfolding t
    by (subst verifyJwt_try_segments [OF assms(1,4,5) g(2)])
      (use assms(2,3) g(1) in \<open>simp add: base64Url_decode_encode subtle_verify_def\<close>)
qed

lemma verifyJwt_signed:
  assumes "s \<noteq> []" "h \<noteq> []" "CHR ''.'' \<notin> set h" "wf_json v"
  shows "verifyJwt (Some (JStr s))
      (Some (JStr (signToken (TextEncoder_encode s) (h @ ''.'' @ base64UrlEncode (stringify v)))))
      logger now =
    (case validateClaims v logger now of
       Inl e \<Rightarrow> log_return logger (JBool False)
     | Inr r \<Rightarrow> Inr r)"
proof -
  let ?p = "base64UrlEncode (stringify v)"
  have p: "?p \<noteq> []" "CHR ''.'' \<notin> set ?p"
    by (simp_all add: base64UrlEncode_nonempty stringify_nonempty base64UrlEncode_no_dot)
  have "signToken (TextEncoder_encode s) (h @ ''.'' @ ?p) \<noteq> []"
    using assms(2) by (simp add: signToken_def)
  then have "verifyJwt (Some (JStr s)) (Some (JStr (signToken (TextEncoder_encode s) (h @ ''.'' @ ?p))))
      logger now =
    (case verifyJwt_try (Some (JStr s))
        (Some (JStr (signToken (TextEncoder_encode s) (h @ ''.'' @ ?p)))) logger now of
       Inl e \<Rightarrow> log_return logger (JBool False)
     | Inr r \<Rightarrow> Inr r)"
    using assms(1) by (simp add: verifyJwt_def truthy_def)
  also have "verifyJwt_try (Some (JStr s))
        (Some (JStr (signToken (TextEncoder_encode s) (h @ ''.'' @ ?p)))) logger now =
      validateClaims v logger now"
    by (simp only: verifyJwt_try_signed [OF assms(1,2) p(1) assms(3) p(2)]
        base64Url_decode_encode JSON_parse_stringify [OF assms(4)] sum.case option.case)
  finally show ?thesis .
qed

lemma token_payload_signed:
  assumes "CHR ''.'' \<notin> set h" "wf_json v"
  shows "token_payload (signToken key (h @ ''.'' @ base64UrlEncode (stringify v))) = Some v"
proof -
  let ?p = "base64UrlEncode (stringify v)"
  let ?g = "base64UrlEncode (subtle_sign key (TextEncoder_encode (h @ ''.'' @ ?p)))"
  have "split_on CHR ''.'' (h @ ''.'' @ ?p @ ''.'' @ ?g) = [h, ?p, ?g]"
    using assms(1) by (intro split_on_three base64UrlEncode_no_dot)
  then show ?thesis
    using assms(2)
    by (simp add: token_payload_def signToken_def nth_opt_three base64Url_decode_encode
        JSON_parse_stringify del: split_on.simps)
qed

subsection \<open>The payload that \<^verbatim>\<open>createJwt\<close> builds\<close>

lemma map_of_set_prop: "map_of (set_prop k v ps) = (map_of ps)(k \<mapsto> v)"
  by (induction ps) (auto simp: fun_eq_iff)

lemma fst_set_prop: "fst ` set (set_prop k v ps) = insert k (fst ` set ps)"
proof (induction ps)
  case Nil
  then show ?case by simp
next
  case (Cons q ps)
  obtain k' v' where q: "q = (k', v')"
    by (cases q)
  show ?case
  proof (cases "k' = k")
    case True
    with q show ?thesis by simp
  next
    case False
    with q Cons show ?thesis by auto
  qed
qed

lemma distinct_set_prop: "distinct (map fst ps) \<Longrightarrow> distinct (map fst (set_prop k v ps))"
proof (induction ps)
  case Nil
  then show ?case by simp
next
  case (Cons q ps)
  obtain k' v' where q: "q = (k', v')"
    by (cases q)
  have "k' \<notin> fst ` set (set_prop k v ps)" if "k' \<noteq> k"
    using that Cons.prems q by (simp add: fst_set_prop)
  with Cons q show ?case
    by auto
qed

lemma wf_members_set_prop: "wf_json v \<Longrightarrow> wf_members ps \<Longrightarrow> wf_members (set_prop k v ps)"
  by (induction ps) auto

lemma wf_set_prop:
  "wf_json v \<Longrightarrow> wf_json (JObj ps) \<Longrightarrow> wf_json (JObj (set_prop k v ps))"
  by (simp add: distinct_set_prop wf_members_set_prop)

lemma wf_jwtPayload:
  "wf_json (JObj (own_props payload)) \<Longrightarrow> wf_json (JObj (jwtPayload payload now))"
  unfolding jwtPayload_def by (intro wf_set_prop) simp_all

lemma claim_jwtPayload:
  "claim (JObj (jwtPayload payload now)) ''iat'' = Some (JNum now)"
  "claim (JObj (jwtPayload payload now)) ''exp'' = Some (JNum (now + DEFAULT_EXPIRATION))"
  "claim (JObj (jwtPayload payload now)) ''iss'' = Some (JStr TOKEN_ISSUER)"
  "claim (JObj (jwtPayload payload now)) ''aud'' = Some (JStr TOKEN_AUDIENCE)"
  by (simp_all add: claim_def jwtPayload_def map_of_set_prop)

lemma claim_jwtPayload_other:
  "k \<notin> {''iat'', ''exp'', ''iss'', ''aud''} \<Longrightarrow>
   claim (JObj (jwtPayload payload now)) k = map_of (own_props payload) k"
  by (simp add: claim_def jwtPayload_def map_of_set_prop)

lemma createJwt_string:
  assumes "s \<noteq> []"
  shows "createJwt (Some (JStr s)) payload logger now =
    Inr (signToken (TextEncoder_encode s)
      (base64UrlEncode (stringify jwtHeader) @ ''.''
        @ base64UrlEncode (stringify (JObj (jwtPayload payload now)))))"
  using assms by (simp add: createJwt_def createJwt_try_def truthy_def getKey_string Let_def)

lemma encoded_header: 
  "base64UrlEncode (stringify jwtHeader) \<noteq> []"
  "CHR ''.'' \<notin> set (base64UrlEncode (stringify jwtHeader))"
  by (simp_all add: base64UrlEncode_nonempty stringify_nonempty base64UrlEncode_no_dot)

subsection \<open>The checks on the payload\<close>

lemma get_prop_claim: "pd \<noteq> JNull \<Longrightarrow> get_prop pd k = Inr (claim pd k)"
  by (cases pd) (simp_all add: get_prop_def claim_def)

lemma validateClaims_null: "validateClaims JNull logger now = Inl TypeError"
  by (simp add: validateClaims_def get_prop_def)

lemma validateClaims_eq:
  assumes "pd \<noteq> JNull"
  shows "validateClaims pd logger now =
    (if truthy (claim pd ''exp'') \<and> js_lt (claim pd ''exp'') now
     then log_return logger (JBool False)
     else if truthy (claim pd ''iat'') \<and> js_gt (claim pd ''iat'') now
     then log_return logger (JBool False)
     else if claim pd ''iss'' \<noteq> Some (JStr TOKEN_ISSUER)
       \<or> claim pd ''aud'' \<noteq> Some (JStr TOKEN_AUDIENCE)
     then log_return logger (JBool False)
     else Inr (JBool True))"
  using assms by (simp add: validateClaims_def get_prop_claim)

lemma log_return_not_True: "log_return logger (JBool False) \<noteq> Inr (JBool True)"
  by (cases logger) (simp_all add: log_return_def log_call_def)

lemma log_return_Logger: "log_return Logger v = Inr v"
  by (simp add: log_return_def log_call_def)

lemma validateClaims_True:
  assumes "validateClaims pd logger now = Inr (JBool True)"
  shows "pd \<noteq> JNull"
    and "\<not> (truthy (claim pd ''exp'') \<and> js_lt (claim pd ''exp'') now)"
    and "\<not> (truthy (claim pd ''iat'') \<and> js_gt (claim pd ''iat'') now)"
    and "claim pd ''iss'' = Some (JStr TOKEN_ISSUER)"
    and "claim pd ''aud'' = Some (JStr TOKEN_AUDIENCE)"
proof -
  show n: "pd \<noteq> JNull"
    using assms by (auto simp: validateClaims_null)
  note e = assms [unfolded validateClaims_eq [OF n]]
  show "\<not> (truthy (claim pd ''exp'') \<and> js_lt (claim pd ''exp'') now)"
    using e log_return_not_True by (auto split: if_splits)
  show "\<not> (truthy (claim pd ''iat'') \<and> js_gt (claim pd ''iat'') now)"
    using e log_return_not_True by (auto split: if_splits)
  show "claim pd ''iss'' = Some (JStr TOKEN_ISSUER)"
    using e log_return_not_True by (auto split: if_splits)
  show "claim pd ''aud'' = Some (JStr TOKEN_AUDIENCE)"
    using e log_return_not_True by (auto split: if_splits)
qed

lemma validateClaims_Logger: "\<exists>b. validateClaims pd Logger now \<in> {Inl TypeError, Inr (JBool b)}"
  by (cases "pd = JNull") (auto simp: validateClaims_null validateClaims_eq log_return_Logger)

text \<open>The payload that \<^verbatim>\<open>createJwt\<close> builds at \<open>t0\<close> passes the checks at every \<open>t1\<close>
  from \<open>t0\<close> to \<open>t0 + DEFAULT_EXPIRATION\<close>.\<close>

lemma validateClaims_jwtPayload:
  assumes "t0 \<le> t1" "t1 \<le> t0 + DEFAULT_EXPIRATION"
  shows "validateClaims (JObj (jwtPayload payload t0)) logger t1 = Inr (JBool True)"
  using assms
  by (simp add: validateClaims_eq claim_jwtPayload js_lt_def js_gt_def to_number_def)

subsection \<open>What \<^verbatim>\<open>verifyJwt\<close> returns\<close>

text \<open>When the result is \<^verbatim>\<open>true\<close>, the token is a string whose payload decodes and passes
  the checks.\<close>

lemma log_return_Inr: "log_return logger v = Inr r \<Longrightarrow> r = v"
  by (cases logger) (simp_all add: log_return_def log_call_def)

lemma verifyJwt_try_Inr:
  assumes "verifyJwt_try secret token logger now = Inr r"
  shows "r = JBool False \<or> (\<exists>tok pd. token = Some (JStr tok) \<and> token_payload tok = Some pd
    \<and> validateClaims pd logger now = Inr r)"
proof -
  from assms obtain key where key: "getKey secret = Inr key"
    by (cases "getKey secret") (simp_all add: verifyJwt_try_def)
  from assms key obtain parts where parts: "js_split token = Inr parts"
    by (cases "js_split token") (simp_all add: verifyJwt_try_def)
  then obtain tok where tok: "token = Some (JStr tok)" "parts = split_on CHR ''.'' tok"
    by (auto simp: js_split_def split: option.splits json.splits)
  note eq = assms [unfolded verifyJwt_try_def key parts sum.case]
  show ?thesis
  proof (cases "nth_opt parts 0")
    case None
    with eq show ?thesis
      by (auto dest: log_return_Inr)
  next
    case h: (Some header)
    show ?thesis
    proof (cases "nth_opt parts 1")
      case None
      with eq h show ?thesis
        by (auto dest: log_return_Inr)
    next
      case p: (Some payload)
      show ?thesis
      proof (cases "nth_opt parts 2")
        case None
        with eq h p show ?thesis
          by (auto dest: log_return_Inr)
      next
        case g: (Some signature)
        show ?thesis
        proof (cases "header = [] \<or> payload = [] \<or> signature = []")
          case True
          with eq h p g show ?thesis
            by (auto dest: log_return_Inr)
        next
          case False
          with eq h p g obtain sb where sb: "base64UrlDecode signature = Inr sb"
            by (cases "base64UrlDecode signature") auto
          show ?thesis
          proof (cases "subtle_verify key sb (TextEncoder_encode (header @ ''.'' @ payload))")
            case nv: False
            with eq h p g False sb show ?thesis
              by auto
          next
            case True
            with eq h p g False sb obtain js where js: "base64UrlDecode payload = Inr js"
              by (cases "base64UrlDecode payload") auto
            with eq h p g False sb True obtain pd where pd: "JSON_parse js = Some pd"
              by (cases "JSON_parse js") auto
            with eq h p g False sb True js have "validateClaims pd logger now = Inr r"
              by auto
            moreover have "token_payload tok = Some pd"
              using p tok js pd by (simp add: token_payload_def)
            ultimately show ?thesis
              using tok by blast
          qed
        qed
      qed
    qed
  qed
qed

lemma verifyJwt_try_True:
  assumes "verifyJwt_try secret token logger now = Inr (JBool True)"
  shows "\<exists>tok pd. token = Some (JStr tok) \<and> token_payload tok = Some pd
    \<and> validateClaims pd logger now = Inr (JBool True)"
  using verifyJwt_try_Inr [OF assms] by simp

lemma verifyJwt_True:
  assumes "verifyJwt secret token logger now = Inr (JBool True)"
  shows "\<exists>tok pd. token = Some (JStr tok) \<and> token_payload tok = Some pd
    \<and> validateClaims pd logger now = Inr (JBool True)"
proof -
  from assms log_return_not_True [of logger]
  have "verifyJwt_try secret token logger now = Inr (JBool True)"
    by (auto simp: verifyJwt_def split: if_splits sum.splits)
  then show ?thesis
    by (rule verifyJwt_try_True)
qed

text \<open>With a logger the function returns a boolean, whatever its arguments.\<close>

lemma verifyJwt_try_Logger:
  assumes "verifyJwt_try secret token Logger now = Inr r"
  shows "\<exists>b. r = JBool b"
proof -
  from verifyJwt_try_Inr [OF assms] consider "r = JBool False"
    | pd where "validateClaims pd Logger now = Inr r"
    by blast
  then show ?thesis
  proof cases
    case 1
    then show ?thesis by blast
  next
    case 2
    with validateClaims_Logger [of pd now] show ?thesis
      by auto
  qed
qed

lemma verifyJwt_Logger: "\<exists>b. verifyJwt secret token Logger now = Inr (JBool b)"
proof (cases "verifyJwt_try secret token Logger now")
  case (Inl e)
  then show ?thesis
    by (auto simp: verifyJwt_def log_return_Logger)
next
  case (Inr r)
  then obtain b where "r = JBool b"
    using verifyJwt_try_Logger by blast
  with Inr show ?thesis
    by (auto simp: verifyJwt_def log_return_Logger)
qed

lemma verifyJwt_Logger_False:
  "verifyJwt secret token Logger now \<noteq> Inr (JBool True) \<Longrightarrow>
   verifyJwt secret token Logger now = Inr (JBool False)"
  using verifyJwt_Logger [of secret token now] by (metis (full_types))

subsection \<open>Issuing, then verifying\<close>

lemma issue_then_verify:
  assumes "s \<noteq> []" and "wf_json (JObj (own_props payload))"
    and "t0 \<le> t1" and "t1 \<le> t0 + DEFAULT_EXPIRATION"
  shows "\<exists>tok. createJwt (Some (JStr s)) payload logger t0 = Inr tok \<and> tok \<noteq> []
    \<and> verifyJwt (Some (JStr s)) (Some (JStr tok)) logger' t1 = Inr (JBool True)
    \<and> token_payload tok = Some (JObj (jwtPayload payload t0))"
proof -
  let ?v = "JObj (jwtPayload payload t0)"
  let ?tok = "signToken (TextEncoder_encode s)
    (base64UrlEncode (stringify jwtHeader) @ ''.'' @ base64UrlEncode (stringify ?v))"
  have wf: "wf_json ?v"
    using assms(2) by (rule wf_jwtPayload)
  have "createJwt (Some (JStr s)) payload logger t0 = Inr ?tok"
    using assms(1) by (rule createJwt_string)
  moreover have "?tok \<noteq> []"
    using encoded_header(1) by (simp add: signToken_def)
  moreover have "verifyJwt (Some (JStr s)) (Some (JStr ?tok)) logger' t1 = Inr (JBool True)"
    by (simp only: verifyJwt_signed [OF assms(1) encoded_header wf]
        validateClaims_jwtPayload [OF assms(3,4)] sum.case)
  moreover have "token_payload ?tok = Some ?v"
    using encoded_header(2) wf by (rule token_payload_signed)
  ultimately show ?thesis
    by blast
qed

lemma own_props_obj: "own_props (Some (JObj c)) = c"
  by (simp add: own_props_def)

lemma jwtPayload_empty:
  "jwtPayload (Some (JObj [])) now =
    [(''iat'', JNum now), (''exp'', JNum (now + DEFAULT_EXPIRATION)),
     (''iss'', JStr TOKEN_ISSUER), (''aud'', JStr TOKEN_AUDIENCE)]"
  by (simp add: jwtPayload_def own_props_def)

subsection \<open>Numbers as strings\<close>

text \<open>An integer below \<open>2 ^ 53\<close> is a Number value, and its string is its decimal
  expansion.\<close>

lemma bit_length_le: "x < 2 ^ k \<Longrightarrow> bit_length x \<le> k"
proof (induction k arbitrary: x)
  case 0
  then show ?case
    by (simp add: bit_length.simps)
next
  case (Suc k)
  show ?case
  proof (cases "x = 0")
    case True
    then show ?thesis
      by (simp add: bit_length.simps)
  next
    case False
    from Suc.prems have "x div 2 < 2 ^ k"
      by simp
    then have "bit_length (x div 2) \<le> k"
      by (rule Suc.IH)
    with False show ?thesis
      by (subst bit_length.simps) simp
  qed
qed

lemma bit_length_lower: "x \<noteq> 0 \<Longrightarrow> 2 ^ (bit_length x - 1) \<le> x"
proof (induction x rule: bit_length.induct)
  case (1 n)
  show ?case
  proof (cases "n div 2 = 0")
    case True
    with 1 have "bit_length n = 1"
      by (subst bit_length.simps) (simp add: bit_length.simps [of 0])
    with 1 show ?thesis
      by simp
  next
    case False
    with 1 have ih: "2 ^ (bit_length (n div 2) - 1) \<le> n div 2"
      by simp
    from False have pos: "0 < bit_length (n div 2)"
      by (subst bit_length.simps) simp
    from 1 have "bit_length n = Suc (bit_length (n div 2))"
      by (subst bit_length.simps) simp
    then have "bit_length n - 1 = Suc (bit_length (n div 2) - 1)"
      using pos by simp
    then have "(2::nat) ^ (bit_length n - 1) = 2 * 2 ^ (bit_length (n div 2) - 1)"
      by simp
    also have "\<dots> \<le> 2 * (n div 2)"
      using ih by simp
    also have "\<dots> \<le> n"
      by simp
    finally show ?thesis .
  qed
qed

lemma bit_length_gt: "2 ^ k \<le> x \<Longrightarrow> k < bit_length x"
proof (rule ccontr)
  assume a: "2 ^ k \<le> x" and "\<not> k < bit_length x"
  then have le: "bit_length x \<le> k"
    by simp
  have "x < 2 ^ bit_length x"
  proof (induction x rule: bit_length.induct)
    case (1 n)
    show ?case
    proof (cases "n = 0")
      case True
      then show ?thesis
        by simp
    next
      case False
      with 1 have "n div 2 < 2 ^ bit_length (n div 2)"
        by simp
      then have "n < 2 * 2 ^ bit_length (n div 2)"
        by simp
      with False show ?thesis
        by (subst bit_length.simps) simp
    qed
  qed
  also have "\<dots> \<le> 2 ^ k"
    using le by (simp add: power_increasing)
  finally show False
    using a by simp
qed

lemma number_value_small:
  assumes "x < 2 ^ 53"
  shows "number_value x = Some x"
proof -
  from assms have "bit_length x \<le> 53"
    by (rule bit_length_le)
  then have e: "bit_length x - 53 = 0"
    by simp
  have "(2::nat) ^ 53 \<le> 2 ^ 1024"
    by (rule power_increasing) simp_all
  with assms have "x < 2 ^ 1024"
    by (rule less_le_trans)
  then show ?thesis
    unfolding number_value_def round_half_even_def finite_number_def Let_def e by simp
qed

lemma number_value_large:
  assumes "2 ^ 53 \<le> x" and "number_value x = Some y"
  shows "2 ^ 53 \<le> y"
proof -
  define e where "e = bit_length x - 53"
  define q where "q = x div 2 ^ e"
  define m where "m = (if 2 ^ e < 2 * (x mod 2 ^ e) \<or> (2 * (x mod 2 ^ e) = 2 ^ e \<and> odd q) then q + 1 else q)"
  from assms(2) have y: "y = m * 2 ^ e"
    unfolding number_value_def round_half_even_def finite_number_def Let_def
      e_def [symmetric] q_def [symmetric] m_def [symmetric]
    by (simp split: if_splits)
  from assms(1) have b: "53 < bit_length x"
    by (rule bit_length_gt)
  from assms(1) have "x \<noteq> 0"
    by auto
  then have "2 ^ (bit_length x - 1) \<le> x"
    by (rule bit_length_lower)
  moreover from b have "bit_length x - 1 = 52 + e"
    by (simp add: e_def)
  ultimately have "(2::nat) ^ 52 * 2 ^ e \<le> x"
    by (simp add: power_add)
  then have "2 ^ 52 \<le> q"
    unfolding q_def by (simp add: less_eq_div_iff_mult_less_eq)
  moreover have "q \<le> m"
    by (simp add: m_def)
  ultimately have "2 ^ 52 \<le> m"
    by (rule order_trans)
  moreover from b have "(2::nat) \<le> 2 ^ e"
    using power_increasing [of 1 e "2::nat"] by (simp add: e_def)
  ultimately have "(2::nat) ^ 52 * 2 \<le> m * 2 ^ e"
    by (rule mult_le_mono)
  then show ?thesis
    by (simp add: y)
qed

lemma number_value_exact:
  assumes "y < 2 ^ 53"
  shows "number_value v = Some y \<longleftrightarrow> v = y"
proof (cases "v < 2 ^ 53")
  case True
  then show ?thesis
    by (auto simp: number_value_small)
next
  case False
  then have "2 ^ 53 \<le> v"
    by simp
  then have "number_value v \<noteq> Some y"
    using number_value_large [of v y] assms by auto
  moreover from False assms have "v \<noteq> y"
    by auto
  ultimately show ?thesis
    by simp
qed

lemma candidate_small:
  assumes "y < 2 ^ 53" and "0 < p" and "candidate y p = Some v"
  shows "v = y"
proof -
  have "y div p * p + p \<noteq> y"
  proof -
    have "y div p * p \<le> y"
      by simp
    have "y < y div p * p + p"
      using assms(2) by (metis div_mult_mod_eq add_less_cancel_left mod_less_divisor)
    then show ?thesis
      by simp
  qed
  with assms(3) show ?thesis
    by (auto simp: candidate_def Let_def number_value_exact [OF assms(1)] split: if_splits)
qed

lemma shortest_from_small: "y < 2 ^ 53 \<Longrightarrow> shortest_from y e = y"
proof (induction e)
  case 0
  show ?case
    by simp
next
  case (Suc e)
  show ?case
  proof (cases "candidate y (10 ^ Suc e)")
    case None
    with Suc show ?thesis
      by simp
  next
    case (Some v)
    have "(0::nat) < 10 ^ Suc e"
      by simp
    with Suc.prems have "v = y"
      using Some by (rule candidate_small)
    with Some show ?thesis
      by simp
  qed
qed

lemma length_show_nat: "x < 10 ^ Suc k \<Longrightarrow> length (show_nat x) \<le> Suc k"
proof (induction k arbitrary: x)
  case 0
  then show ?case
    by (subst show_nat.simps) simp
next
  case (Suc k)
  show ?case
  proof (cases "x < 10")
    case True
    then show ?thesis
      by (subst show_nat.simps) simp
  next
    case False
    from Suc.prems have "x div 10 < 10 ^ Suc k"
      by simp
    then have "length (show_nat (x div 10)) \<le> Suc k"
      by (rule Suc.IH)
    with False show ?thesis
      by (subst show_nat.simps) simp
  qed
qed

lemma show_number_small:
  assumes "x < 2 ^ 53"
  shows "show_number x = show_nat x"
proof -
  have "(2::nat) ^ 53 < 10 ^ Suc 20"
    by simp
  with assms have "x < 10 ^ Suc 20"
    by (rule less_trans)
  then have "length (show_nat x) \<le> Suc 20"
    by (rule length_show_nat)
  then have "show_decimal x = show_nat x"
    by (simp add: show_decimal_def)
  with assms show ?thesis
    by (simp add: show_number_def number_value_small shortest_def shortest_from_small)
qed

lemma number_to_string_small:
  assumes "\<bar>i\<bar> < 2 ^ 53"
  shows "number_to_string i = show_int i"
proof -
  from assms have "nat \<bar>i\<bar> < 2 ^ 53"
    by (simp add: nat_less_iff)
  then have "show_number (nat \<bar>i\<bar>) = show_nat (nat \<bar>i\<bar>)"
    by (rule show_number_small)
  then show ?thesis
    by (auto simp: number_to_string_def show_int_def abs_if split: if_splits)
qed

text \<open>Beyond that range the string has the digits of the Number value: 17 significant digits
  at most, and an exponent from \<open>10 ^ 21\<close> on.\<close>

lemma digit_char_values:
  "digit_char 0 = CHR ''0''" "digit_char 1 = CHR ''1''" "digit_char 2 = CHR ''2''"
  "digit_char 3 = CHR ''3''" "digit_char 4 = CHR ''4''" "digit_char 5 = CHR ''5''"
  "digit_char 6 = CHR ''6''" "digit_char 7 = CHR ''7''" "digit_char 8 = CHR ''8''"
  "digit_char 9 = CHR ''9''" "digit_char (Suc 0) = CHR ''1''"
  by (simp_all add: digit_char_def char_of_eqI)

lemma shortest_from_numeral:
  "shortest_from y (numeral k) =
     (case candidate y (10 ^ numeral k) of
        Some v \<Rightarrow> v
      | None \<Rightarrow> shortest_from y (pred_numeral k))"
  by (simp add: numeral_eq_Suc)

lemmas number_eval =
  number_value_def finite_number_def round_half_even_def [unfolded Let_def]
  candidate_def [unfolded Let_def] bit_length.simps
  shortest_def shortest_from_numeral show_nat.simps digit_char_values
  show_decimal_def [unfolded Let_def] significand_def show_number_def number_to_string_def

lemma number_to_string_2_64:
  "number_to_string 18446744073709551616 = ''18446744073709552000''"
  by (simp add: number_eval)

lemma number_to_string_10_21:
  "number_to_string 1000000000000000000000 = ''1e+21''"
  by (simp add: number_eval)

subsection \<open>The cookie header\<close>

lemma createAuthCookie_default:
  assumes "t \<noteq> []"
  shows "createAuthCookie (Some (JStr t)) (Some (JNum n)) no_options =
    Inr (''auth_token='' @ t @ ''; Path=/admin; Max-Age='' @ number_to_string n
      @ ''; HttpOnly=true; Secure=true; SameSite=Strict'')"
  using assms
  by (simp add: createAuthCookie_def no_options_def truthy_def template_string_def
      COOKIE_NAME_def COOKIE_PATH_def)

lemma createAuthCookie_not_secure:
  assumes "t \<noteq> []"
  shows "createAuthCookie (Some (JStr t)) (Some (JNum n)) (no_options\<lparr>opt_secure := Some False\<rparr>) =
    Inr (''auth_token='' @ t @ ''; Path=/admin; Max-Age='' @ number_to_string n
      @ ''; HttpOnly=true; Secure=false; SameSite=Strict'')"
  using assms
  by (simp add: createAuthCookie_def no_options_def truthy_def template_string_def
      COOKIE_NAME_def COOKIE_PATH_def)

lemma createAuthCookie_empty_token:
  "createAuthCookie (Some (JStr [])) maxAge options = Inl (Error ''Token and maxAge are required'')"
  by (simp add: createAuthCookie_def truthy_def split: option.splits json.splits)

lemma createAuthCookie_2_64:
  "createAuthCookie (Some (JStr ''t'')) (Some (JNum 18446744073709551616)) no_options =
    Inr (''auth_token=t; Path=/admin; Max-Age=18446744073709552000''
      @ ''; HttpOnly=true; Secure=true; SameSite=Strict'')"
proof -
  have "''t'' \<noteq> []"
    by simp
  from createAuthCookie_default [OF this, of 18446744073709551616] show ?thesis
    by (simp add: number_to_string_2_64)
qed

lemma show_int_0: "show_int 0 = ''0''"
  by (simp add: show_int_def show_nat_0)

lemma show_nat_28800: "show_nat 28800 = ''28800''"
  by (simp add: show_nat.simps digit_char_values)

subsection \<open>The shorter variant\<close>

lemma createAuthCookie0_string:
  "createAuthCookie0 (Some (JStr t)) (Some (JNum n)) =
    ''auth_token='' @ t @ ''; HttpOnly; Secure; Path=/admin; Max-Age='' @ number_to_string n
      @ ''; SameSite=Strict''"
  by (simp add: createAuthCookie0_def template_string_def)

lemma getKey0_string: "s \<noteq> [] \<Longrightarrow> getKey0 s = Inr (TextEncoder_encode s)"
  by (simp add: getKey0_def importKey_def TextEncoder_encode_nonempty)

lemma verifyJwt0_try_signed:
  assumes "s \<noteq> []" "h \<noteq> []" "CHR ''.'' \<notin> set h" "wf_json v"
  shows "verifyJwt0_try s
      (Some (JStr (signToken (TextEncoder_encode s) (h @ ''.'' @ base64UrlEncode (stringify v)))))
      now =
    (case get_prop v ''exp'' of Inl e \<Rightarrow> Inl e | Inr exp \<Rightarrow> Inr (JBool (js_gt exp now)))"
proof -
  let ?p = "base64UrlEncode (stringify v)"
  let ?g = "base64UrlEncode (hmac_sha256 (TextEncoder_encode s) (TextEncoder_encode (h @ ''.'' @ ?p)))"
  have t: "signToken (TextEncoder_encode s) (h @ ''.'' @ ?p) = h @ ''.'' @ ?p @ ''.'' @ ?g"
    by (simp add: signToken_def subtle_sign_def)
  have p: "?p \<noteq> []" "CHR ''.'' \<notin> set ?p"
    by (simp_all add: base64UrlEncode_nonempty stringify_nonempty base64UrlEncode_no_dot)
  have g: "?g \<noteq> []" "CHR ''.'' \<notin> set ?g"
    by (simp_all add: base64UrlEncode_nonempty hmac_sha256_nonempty base64UrlEncode_no_dot)
  have "split_on CHR ''.'' (h @ ''.'' @ ?p @ ''.'' @ ?g) = [h, ?p, ?g]"
    using assms(3) p(2) g(2) by (rule split_on_three)
  then show ?thesis
    unfolding t
    using assms(1,2) p(1) g(1) JSON_parse_stringify [OF assms(4)]
    by (simp add: verifyJwt0_try_def getKey0_string js_split_def nth_opt_three
        base64Url_decode_encode subtle_verify_def del: split_on.simps)
qed

text \<open>The variant accepts its own token exactly while \<^verbatim>\<open>exp\<close> is greater than the time:
  \<^verbatim>\<open>exp = now\<close> is rejected there.\<close>

lemma verifyJwt0_createJwt0:
  assumes "s \<noteq> []"
  shows "\<exists>tok. createJwt0 s (Some n) t0 = Inr tok
    \<and> token_payload tok = Some (JObj [(''exp'', JNum (t0 + n))])
    \<and> verifyJwt0 s (Some (JStr tok)) t1 = Inr (JBool (t1 < t0 + n))"
proof -
  let ?h = "base64UrlEncode (stringify (JObj [(''alg'', JStr ''HS256''), (''typ'', JStr ''JWT'')]))"
  let ?v = "JObj [(''exp'', JNum (t0 + n))]"
  define tok where
    "tok = signToken (TextEncoder_encode s) (?h @ ''.'' @ base64UrlEncode (stringify ?v))"
  have h: "?h \<noteq> []" "CHR ''.'' \<notin> set ?h"
    by (simp_all only: base64UrlEncode_nonempty [OF stringify_nonempty] base64UrlEncode_no_dot
        not_False_eq_True)
  have wf: "wf_json ?v"
    by simp
  have c: "createJwt0 s (Some n) t0 = Inr tok"
    using assms by (simp add: createJwt0_def getKey0_string Let_def tok_def)
  have tp: "token_payload tok = Some ?v"
    unfolding tok_def using h(2) wf by (rule token_payload_signed)
  have ne: "tok \<noteq> []"
    unfolding tok_def using h(1) by (simp add: signToken_def)
  have "verifyJwt0_try s (Some (JStr tok)) t1 =
    (case get_prop ?v ''exp'' of Inl e \<Rightarrow> Inl e | Inr exp \<Rightarrow> Inr (JBool (js_gt exp t1)))"
    unfolding tok_def by (rule verifyJwt0_try_signed [OF assms h wf])
  then have "verifyJwt0_try s (Some (JStr tok)) t1 = Inr (JBool (t1 < t0 + n))"
    by (simp add: get_prop_def js_gt_def to_number_def)
  with ne have "verifyJwt0 s (Some (JStr tok)) t1 = Inr (JBool (t1 < t0 + n))"
    by (simp add: verifyJwt0_def truthy_def)
  with c tp show ?thesis
    by blast
qed

text \<open>The variant has no logger and its \<^verbatim>\<open>catch\<close> returns \<^verbatim>\<open>false\<close>: it returns a boolean
  for every secret and token.\<close>

lemma verifyJwt0_try_Inr: "verifyJwt0_try s token now = Inr r \<Longrightarrow> \<exists>b. r = JBool b"
  unfolding verifyJwt0_try_def
  by (auto split: sum.splits option.splits if_splits prod.splits)

lemma verifyJwt0_total: "\<exists>b. verifyJwt0 s token now = Inr (JBool b)"
proof (cases "verifyJwt0_try s token now")
  case (Inl e)
  then show ?thesis
    by (auto simp: verifyJwt0_def)
next
  case (Inr r)
  then obtain b where "r = JBool b"
    using verifyJwt0_try_Inr by blast
  with Inr show ?thesis
    by (auto simp: verifyJwt0_def)
qed

section \<open>The claims\<close>

subsection \<open>C1: verification of an issued token\<close>

text \<open>
  \<^bold>\<open>C1\<close>. For every valid (non-empty) secret \<open>s\<close> and every claim set \<open>c\<close>, the verification of
  the token issued for \<open>c\<close> is not \<^verbatim>\<open>false\<close>, and on success \<^verbatim>\<open>verifyJwt\<close> returns the decoded
  claims of the payload, not a bare boolean.

  The first half holds; the second does not: the function ends in \<^verbatim>\<open>return true\<close>. The
  theorem states what the code does for a token verified between its \<^verbatim>\<open>iat\<close> and its
  \<^verbatim>\<open>exp\<close>: the result is the boolean \<^verbatim>\<open>true\<close>, while the payload of the token decodes to the
  object that \<^verbatim>\<open>createJwt\<close> built, with the entries of \<open>c\<close> in it.
\<close>

theorem C1_verify_returns_true:
  assumes "s \<noteq> []" and "wf_json (JObj c)" and "t0 \<le> t1" and "t1 \<le> t0 + DEFAULT_EXPIRATION"
  shows "\<exists>tok. createJwt (Some (JStr s)) (Some (JObj c)) logger t0 = Inr tok
    \<and> verifyJwt (Some (JStr s)) (Some (JStr tok)) logger' t1 = Inr (JBool True)
    \<and> token_payload tok = Some (JObj (jwtPayload (Some (JObj c)) t0))"
proof -
  have "wf_json (JObj (own_props (Some (JObj c))))"
    using assms(2) by (simp only: own_props_obj)
  from issue_then_verify [OF assms(1) this assms(3,4)] show ?thesis
    by blast
qed

theorem C1_verify_returns_true_witness:
  "\<exists>tok. createJwt (Some (JStr ''secret'')) (Some (JObj [(''sub'', JStr ''admin'')])) Logger 1700000000
      = Inr tok
    \<and> verifyJwt (Some (JStr ''secret'')) (Some (JStr tok)) Logger 1700000000 = Inr (JBool True)
    \<and> token_payload tok =
        Some (JObj [(''sub'', JStr ''admin''), (''iat'', JNum 1700000000),
          (''exp'', JNum 1700028800), (''iss'', JStr ''web-app''),
          (''aud'', JStr ''web-app-users'')])"
proof -
  have p: "jwtPayload (Some (JObj [(''sub'', JStr ''admin'')])) 1700000000 =
    [(''sub'', JStr ''admin''), (''iat'', JNum 1700000000), (''exp'', JNum 1700028800),
     (''iss'', JStr ''web-app''), (''aud'', JStr ''web-app-users'')]"
    by (simp add: jwtPayload_def own_props_def DEFAULT_EXPIRATION_def TOKEN_ISSUER_def
        TOKEN_AUDIENCE_def)
  have "''secret'' \<noteq> []" "wf_json (JObj [(''sub'', JStr ''admin'')])"
    "(1700000000::int) \<le> 1700000000" "(1700000000::int) \<le> 1700000000 + DEFAULT_EXPIRATION"
    by (simp_all add: DEFAULT_EXPIRATION_def)
  from C1_verify_returns_true [OF this, of Logger Logger] show ?thesis
    by (simp only: p)
qed

subsection \<open>C2: refresh\<close>

text \<open>
  \<^bold>\<open>C2\<close>. For a token issued with a custom claim such as \<^verbatim>\<open>{sub: "admin"}\<close>, the token that
  \<^verbatim>\<open>refreshJwt\<close> returns still carries that claim, with a fresh \<^verbatim>\<open>iat\<close> and \<^verbatim>\<open>exp\<close>.

  The code does not do this. \<^verbatim>\<open>refreshJwt\<close> takes the result of \<^verbatim>\<open>verifyJwt\<close> for the claims,
  and that result is \<^verbatim>\<open>true\<close>, which has no properties: the new token is issued for the empty
  claim set. The theorem states it: whatever \<open>c\<close> was, the payload of the refreshed token is
  the payload that \<^verbatim>\<open>createJwt\<close> builds for \<^verbatim>\<open>{}\<close>.
\<close>

theorem C2_refresh_drops_claims:
  assumes "s \<noteq> []" and "wf_json (JObj c)" and "t0 \<le> t1" and "t1 \<le> t0 + DEFAULT_EXPIRATION"
  shows "\<exists>tok tok'. createJwt (Some (JStr s)) (Some (JObj c)) logger t0 = Inr tok
    \<and> refreshJwt (Some (JStr s)) (Some (JStr tok)) logger t1 t2 = Inr (JStr tok')
    \<and> token_payload tok' = Some (JObj (jwtPayload (Some (JObj [])) t2))"
proof -
  have "wf_json (JObj (own_props (Some (JObj c))))"
    using assms(2) by (simp only: own_props_obj)
  from issue_then_verify [OF assms(1) this assms(3,4), of logger "NotLogger None"]
  obtain tok where tok: "createJwt (Some (JStr s)) (Some (JObj c)) logger t0 = Inr tok"
    "tok \<noteq> []"
    "verifyJwt (Some (JStr s)) (Some (JStr tok)) (NotLogger None) t1 = Inr (JBool True)"
    by blast
  have "wf_json (JObj (own_props (Some (JObj []))))"
    by (simp add: own_props_obj)
  from issue_then_verify [OF assms(1) this order_refl, of t2 logger]
  obtain tok' where tok': "createJwt (Some (JStr s)) (Some (JObj [])) logger t2 = Inr tok'"
    "token_payload tok' = Some (JObj (jwtPayload (Some (JObj [])) t2))"
    by (auto simp: DEFAULT_EXPIRATION_def)
  have "refreshJwt_try (Some (JStr s)) (Some (JStr tok)) logger t1 t2 = Inr (JStr tok')"
    by (simp add: refreshJwt_try_def tok(3) truthy_def rest_props_def own_props_def tok'(1))
  then have "refreshJwt (Some (JStr s)) (Some (JStr tok)) logger t1 t2 = Inr (JStr tok')"
    using assms(1) tok(2) by (simp add: refreshJwt_def truthy_def)
  with tok(1) tok'(2) show ?thesis
    by blast
qed

theorem C2_refresh_drops_claims_witness:
  "\<exists>tok tok'.
     createJwt (Some (JStr ''secret'')) (Some (JObj [(''sub'', JStr ''admin'')])) Logger 1700000000
       = Inr tok
     \<and> refreshJwt (Some (JStr ''secret'')) (Some (JStr tok)) Logger 1700000060 1700000060
       = Inr (JStr tok')
     \<and> token_payload tok' =
         Some (JObj [(''iat'', JNum 1700000060), (''exp'', JNum 1700028860),
           (''iss'', JStr ''web-app''), (''aud'', JStr ''web-app-users'')])"
proof -
  have p: "jwtPayload (Some (JObj [])) 1700000060 =
    [(''iat'', JNum 1700000060), (''exp'', JNum 1700028860),
     (''iss'', JStr ''web-app''), (''aud'', JStr ''web-app-users'')]"
    by (simp add: jwtPayload_def own_props_def DEFAULT_EXPIRATION_def TOKEN_ISSUER_def
        TOKEN_AUDIENCE_def)
  have "''secret'' \<noteq> []" "wf_json (JObj [(''sub'', JStr ''admin'')])"
    "(1700000000::int) \<le> 1700000060" "(1700000060::int) \<le> 1700000000 + DEFAULT_EXPIRATION"
    by (simp_all add: DEFAULT_EXPIRATION_def)
  from C2_refresh_drops_claims [OF this, of Logger 1700000060] show ?thesis
    by (simp only: p)
qed

subsection \<open>C3: expiry\<close>

text \<open>
  \<^bold>\<open>C3\<close>. \<^verbatim>\<open>verifyJwt\<close> rejects every token whose payload has no \<^verbatim>\<open>exp\<close>, and every token
  whose \<^verbatim>\<open>exp\<close> is less than or equal to the current time; a token verified at the instant
  of its \<^verbatim>\<open>iat\<close> is accepted.

  As stated the claim fails: the test is \<^verbatim>\<open>payloadData.exp && payloadData.exp < now\<close>, so
  that \<^verbatim>\<open>exp\<close> is optional. The token below is signed with the secret, carries the issuer
  and the audience and no \<^verbatim>\<open>exp\<close>, and is accepted.
\<close>

theorem C3_counterexample:
  "token_payload
     (signToken (TextEncoder_encode ''secret'')
       (base64UrlEncode (stringify jwtHeader) @ ''.''
         @ base64UrlEncode (stringify
             (JObj [(''iss'', JStr ''web-app''), (''aud'', JStr ''web-app-users'')]))))
     = Some (JObj [(''iss'', JStr ''web-app''), (''aud'', JStr ''web-app-users'')])
   \<and> claim (JObj [(''iss'', JStr ''web-app''), (''aud'', JStr ''web-app-users'')]) ''exp'' = None
   \<and> verifyJwt (Some (JStr ''secret''))
     (Some (JStr (signToken (TextEncoder_encode ''secret'')
       (base64UrlEncode (stringify jwtHeader) @ ''.''
         @ base64UrlEncode (stringify
             (JObj [(''iss'', JStr ''web-app''), (''aud'', JStr ''web-app-users'')]))))))
     Logger 1700000000 = Inr (JBool True)"
proof -
  let ?v = "JObj [(''iss'', JStr ''web-app''), (''aud'', JStr ''web-app-users'')]"
  have wf: "wf_json ?v"
    by simp
  have s: "''secret'' \<noteq> []"
    by simp
  have "validateClaims ?v Logger 1700000000 = Inr (JBool True)"
    by (simp add: validateClaims_eq claim_def truthy_def TOKEN_ISSUER_def TOKEN_AUDIENCE_def)
  then have "verifyJwt (Some (JStr ''secret''))
     (Some (JStr (signToken (TextEncoder_encode ''secret'')
       (base64UrlEncode (stringify jwtHeader) @ ''.'' @ base64UrlEncode (stringify ?v)))))
     Logger 1700000000 = Inr (JBool True)"
    by (simp only: verifyJwt_signed [OF s encoded_header wf] sum.case)
  moreover have "token_payload (signToken (TextEncoder_encode ''secret'')
       (base64UrlEncode (stringify jwtHeader) @ ''.'' @ base64UrlEncode (stringify ?v))) = Some ?v"
    using encoded_header(2) wf by (rule token_payload_signed)
  moreover have "claim ?v ''exp'' = None"
    by (simp add: claim_def)
  ultimately show ?thesis
    by blast
qed

text \<open>
  \<^bold>\<open>C3\<close>, amended. \<^verbatim>\<open>verifyJwt\<close> rejects every token whose payload carries a number other than
  zero as \<^verbatim>\<open>exp\<close> that is less than the current time. \<^verbatim>\<open>exp\<close> is optional: a token signed
  with the secret whose payload has the issuer, the audience, an \<^verbatim>\<open>iat\<close> that is not in the
  future and no \<^verbatim>\<open>exp\<close> is accepted. A token verified at the instant of its \<^verbatim>\<open>iat\<close> is
  accepted. (Nothing is said of a token whose \<^verbatim>\<open>exp\<close> is the current time.)
\<close>

theorem C3_expiry:
  "(\<forall>secret tok pd e now.
      token_payload tok = Some pd \<and> claim pd ''exp'' = Some (JNum e) \<and> e \<noteq> 0 \<and> e < now
      \<longrightarrow> verifyJwt secret (Some (JStr tok)) Logger now = Inr (JBool False))
   \<and> (\<forall>s h ms i now.
      s \<noteq> [] \<and> h \<noteq> [] \<and> CHR ''.'' \<notin> set h \<and> wf_json (JObj ms)
      \<and> map_of ms ''exp'' = None \<and> map_of ms ''iat'' = Some (JNum i) \<and> i \<le> now
      \<and> map_of ms ''iss'' = Some (JStr TOKEN_ISSUER)
      \<and> map_of ms ''aud'' = Some (JStr TOKEN_AUDIENCE)
      \<longrightarrow> verifyJwt (Some (JStr s))
            (Some (JStr (signToken (TextEncoder_encode s)
              (h @ ''.'' @ base64UrlEncode (stringify (JObj ms)))))) Logger now
          = Inr (JBool True))
   \<and> (\<forall>s c t0.
      s \<noteq> [] \<and> wf_json (JObj c)
      \<longrightarrow> (\<exists>tok. createJwt (Some (JStr s)) (Some (JObj c)) Logger t0 = Inr tok
            \<and> verifyJwt (Some (JStr s)) (Some (JStr tok)) Logger t0 = Inr (JBool True)))"
proof (intro conjI allI impI)
  fix secret :: jsval and tok :: string and pd :: json and e now :: int
  assume a: "token_payload tok = Some pd \<and> claim pd ''exp'' = Some (JNum e) \<and> e \<noteq> 0 \<and> e < now"
  have "verifyJwt secret (Some (JStr tok)) Logger now \<noteq> Inr (JBool True)"
  proof
    assume "verifyJwt secret (Some (JStr tok)) Logger now = Inr (JBool True)"
    then obtain pd' where "token_payload tok = Some pd'"
      "validateClaims pd' Logger now = Inr (JBool True)"
      using verifyJwt_True by blast
    with a have "validateClaims pd Logger now = Inr (JBool True)"
      by simp
    from validateClaims_True(2) [OF this] a show False
      by (simp add: truthy_def js_lt_def to_number_def)
  qed
  then show "verifyJwt secret (Some (JStr tok)) Logger now = Inr (JBool False)"
    by (rule verifyJwt_Logger_False)
next
  fix s h :: string and ms :: "(string \<times> json) list" and i now :: int
  assume a: "s \<noteq> [] \<and> h \<noteq> [] \<and> CHR ''.'' \<notin> set h \<and> wf_json (JObj ms)
      \<and> map_of ms ''exp'' = None \<and> map_of ms ''iat'' = Some (JNum i) \<and> i \<le> now
      \<and> map_of ms ''iss'' = Some (JStr TOKEN_ISSUER)
      \<and> map_of ms ''aud'' = Some (JStr TOKEN_AUDIENCE)"
  then have v: "validateClaims (JObj ms) Logger now = Inr (JBool True)"
    by (simp add: validateClaims_eq claim_def truthy_def js_gt_def to_number_def)
  from a have s: "s \<noteq> []" and h: "h \<noteq> []" "CHR ''.'' \<notin> set h" and wf: "wf_json (JObj ms)"
    by blast+
  show "verifyJwt (Some (JStr s))
            (Some (JStr (signToken (TextEncoder_encode s)
              (h @ ''.'' @ base64UrlEncode (stringify (JObj ms)))))) Logger now
          = Inr (JBool True)"
    by (simp only: verifyJwt_signed [OF s h wf] v sum.case)
next
  fix s :: string and c :: "(string \<times> json) list" and t0 :: int
  assume a: "s \<noteq> [] \<and> wf_json (JObj c)"
  then have "s \<noteq> []" "wf_json (JObj (own_props (Some (JObj c))))"
    by (simp_all add: own_props_obj)
  moreover have "t0 \<le> t0" "t0 \<le> t0 + DEFAULT_EXPIRATION"
    by (simp_all add: DEFAULT_EXPIRATION_def)
  ultimately show "\<exists>tok. createJwt (Some (JStr s)) (Some (JObj c)) Logger t0 = Inr tok
            \<and> verifyJwt (Some (JStr s)) (Some (JStr tok)) Logger t0 = Inr (JBool True)"
    using issue_then_verify by blast
qed

theorem C3_expiry_witness:
  "verifyJwt (Some (JStr ''secret''))
     (Some (JStr (signToken (TextEncoder_encode ''secret'')
       (base64UrlEncode (stringify jwtHeader) @ ''.''
         @ base64UrlEncode (stringify
             (JObj [(''exp'', JNum 1699999999), (''iss'', JStr ''web-app''),
                    (''aud'', JStr ''web-app-users'')]))))))
     Logger 1700000000 = Inr (JBool False)
   \<and> verifyJwt (Some (JStr ''secret''))
     (Some (JStr (signToken (TextEncoder_encode ''secret'')
       (base64UrlEncode (stringify jwtHeader) @ ''.''
         @ base64UrlEncode (stringify
             (JObj [(''iat'', JNum 1700000000), (''iss'', JStr ''web-app''),
                    (''aud'', JStr ''web-app-users'')]))))))
     Logger 1700000000 = Inr (JBool True)
   \<and> (\<exists>tok. createJwt (Some (JStr ''secret'')) (Some (JObj [])) Logger 1700000000 = Inr tok
        \<and> verifyJwt (Some (JStr ''secret'')) (Some (JStr tok)) Logger 1700000000
            = Inr (JBool True))"
proof (intro conjI)
  let ?h = "base64UrlEncode (stringify jwtHeader)"
  let ?v = "JObj [(''exp'', JNum 1699999999), (''iss'', JStr ''web-app''),
    (''aud'', JStr ''web-app-users'')]"
  let ?tok = "signToken (TextEncoder_encode ''secret'') (?h @ ''.'' @ base64UrlEncode (stringify ?v))"
  have tp: "token_payload ?tok = Some ?v"
    by (rule token_payload_signed [OF encoded_header(2)]) simp
  have cl: "claim ?v ''exp'' = Some (JNum 1699999999)"
    by (simp add: claim_def)
  show "verifyJwt (Some (JStr ''secret'')) (Some (JStr ?tok)) Logger 1700000000
    = Inr (JBool False)"
    by (rule C3_expiry [THEN conjunct1, rule_format]) (intro conjI, rule tp, rule cl, simp_all)
next
  let ?h = "base64UrlEncode (stringify jwtHeader)"
  let ?ms = "[(''iat'', JNum 1700000000), (''iss'', JStr ''web-app''),
    (''aud'', JStr ''web-app-users'')]"
  show "verifyJwt (Some (JStr ''secret''))
     (Some (JStr (signToken (TextEncoder_encode ''secret'')
       (?h @ ''.'' @ base64UrlEncode (stringify (JObj ?ms))))))
     Logger 1700000000 = Inr (JBool True)"
    by (rule C3_expiry [THEN conjunct2, THEN conjunct1, rule_format, where i = 1700000000])
      (use encoded_header in \<open>simp add: TOKEN_ISSUER_def TOKEN_AUDIENCE_def\<close>)
next
  show "\<exists>tok. createJwt (Some (JStr ''secret'')) (Some (JObj [])) Logger 1700000000 = Inr tok
        \<and> verifyJwt (Some (JStr ''secret'')) (Some (JStr tok)) Logger 1700000000
            = Inr (JBool True)"
    by (rule C3_expiry [THEN conjunct2, THEN conjunct2, rule_format]) simp
qed

subsection \<open>C4: issuer and audience\<close>

text \<open>
  \<^bold>\<open>C4\<close>. \<^verbatim>\<open>verifyJwt\<close> checks that \<^verbatim>\<open>iss\<close> is the fixed issuer and \<^verbatim>\<open>aud\<close> the fixed audience:
  for every token whose payload carries another \<^verbatim>\<open>iss\<close> or another \<^verbatim>\<open>aud\<close>, also one signed
  with the real secret, the result is \<^verbatim>\<open>false\<close>.

  The theorem holds for every token, signed or not, and every secret. With a logger the
  result is \<^verbatim>\<open>false\<close>; with any logger argument it is not \<^verbatim>\<open>true\<close>.
\<close>

theorem C4_issuer_audience:
  assumes "token_payload tok = Some pd"
    and "claim pd ''iss'' \<noteq> Some (JStr TOKEN_ISSUER) \<or> claim pd ''aud'' \<noteq> Some (JStr TOKEN_AUDIENCE)"
  shows "verifyJwt secret (Some (JStr tok)) Logger now = Inr (JBool False)
    \<and> verifyJwt secret (Some (JStr tok)) logger now \<noteq> Inr (JBool True)"
proof -
  have n: "verifyJwt secret (Some (JStr tok)) l now \<noteq> Inr (JBool True)" for l
  proof
    assume "verifyJwt secret (Some (JStr tok)) l now = Inr (JBool True)"
    then obtain pd' where "token_payload tok = Some pd'"
      "validateClaims pd' l now = Inr (JBool True)"
      using verifyJwt_True by blast
    with assms(1) have "validateClaims pd l now = Inr (JBool True)"
      by simp
    from validateClaims_True(4,5) [OF this] assms(2) show False
      by simp
  qed
  from n [of Logger] have "verifyJwt secret (Some (JStr tok)) Logger now = Inr (JBool False)"
    by (rule verifyJwt_Logger_False)
  with n [of logger] show ?thesis
    by simp
qed

theorem C4_issuer_audience_witness:
  "token_payload
     (signToken (TextEncoder_encode ''secret'')
       (base64UrlEncode (stringify jwtHeader) @ ''.''
         @ base64UrlEncode (stringify
             (JObj [(''iat'', JNum 1700000000), (''exp'', JNum 1700028800),
                    (''iss'', JStr ''other-app''), (''aud'', JStr ''web-app-users'')]))))
     = Some (JObj [(''iat'', JNum 1700000000), (''exp'', JNum 1700028800),
                   (''iss'', JStr ''other-app''), (''aud'', JStr ''web-app-users'')])
   \<and> verifyJwt (Some (JStr ''secret''))
     (Some (JStr (signToken (TextEncoder_encode ''secret'')
       (base64UrlEncode (stringify jwtHeader) @ ''.''
         @ base64UrlEncode (stringify
             (JObj [(''iat'', JNum 1700000000), (''exp'', JNum 1700028800),
                    (''iss'', JStr ''other-app''), (''aud'', JStr ''web-app-users'')]))))))
     Logger 1700000000 = Inr (JBool False)"
proof -
  let ?v = "JObj [(''iat'', JNum 1700000000), (''exp'', JNum 1700028800),
    (''iss'', JStr ''other-app''), (''aud'', JStr ''web-app-users'')]"
  let ?tok = "signToken (TextEncoder_encode ''secret'')
    (base64UrlEncode (stringify jwtHeader) @ ''.'' @ base64UrlEncode (stringify ?v))"
  have tp: "token_payload ?tok = Some ?v"
    by (rule token_payload_signed [OF encoded_header(2)]) simp
  have "claim ?v ''iss'' \<noteq> Some (JStr TOKEN_ISSUER) \<or> claim ?v ''aud'' \<noteq> Some (JStr TOKEN_AUDIENCE)"
    by (simp add: claim_def TOKEN_ISSUER_def)
  from C4_issuer_audience [OF tp this, of "Some (JStr ''secret'')" 1700000000 Logger] tp
  show ?thesis
    by blast
qed

subsection \<open>C5: no exception leaves the verification\<close>

text \<open>
  \<^bold>\<open>C5\<close>. For every secret and every token, \<^verbatim>\<open>verifyJwt\<close> propagates no exception to its
  caller: every failure becomes the result \<^verbatim>\<open>false\<close>.

  The code does not keep this when it is called as \<^verbatim>\<open>verifyJwt(secret, token)\<close>, the way
  \<^verbatim>\<open>refreshJwt\<close> calls it: the failure branches call \<^verbatim>\<open>logger.error\<close>, the call on
  \<^verbatim>\<open>undefined\<close> throws inside the \<^verbatim>\<open>try\<close>, and the \<^verbatim>\<open>catch\<close> calls \<^verbatim>\<open>logger.error\<close> again. On
  the token \<^verbatim>\<open>a.b\<close> the call throws \<open>TypeError\<close>, for every secret.
\<close>

theorem C5_verify_throws_without_logger:
  "verifyJwt (Some (JStr s)) (Some (JStr ''a.b'')) (NotLogger None) now = Inl TypeError"
proof (cases "s = []")
  case True
  then show ?thesis
    by (simp add: verifyJwt_def truthy_def log_return_def log_call_def)
next
  case False
  then have "verifyJwt_try (Some (JStr s)) (Some (JStr ''a.b'')) (NotLogger None) now
    = Inl TypeError"
    by (simp add: verifyJwt_try_def getKey_string js_split_def nth_opt_def log_return_def
        log_call_def)
  with False show ?thesis
    by (simp add: verifyJwt_def truthy_def log_return_def log_call_def)
qed

theorem C5_verify_throws_without_logger_witness:
  "verifyJwt (Some (JStr ''secret'')) (Some (JStr ''a.b'')) (NotLogger None) 1700000000
    = Inl TypeError"
  by (rule C5_verify_throws_without_logger)

subsection \<open>C6: lifetime\<close>

text \<open>
  \<^bold>\<open>C6\<close>. \<^verbatim>\<open>createJwt\<close> takes a lifetime in seconds, 28800 by default, and the payload of the
  issued token satisfies \<^verbatim>\<open>exp = iat + lifetime\<close>.

  The function has no such parameter, although its doc comment names one
  (\<^verbatim>\<open>expirationInSeconds\<close>): its third parameter is the logger. Whatever number \<open>n\<close> a caller
  passes there, the payload has \<^verbatim>\<open>exp = iat + 28800\<close>.
\<close>

theorem C6_lifetime_fixed:
  assumes "s \<noteq> []" and "wf_json (JObj c)"
  shows "\<exists>tok pd. createJwt (Some (JStr s)) (Some (JObj c)) (NotLogger (Some (JNum n))) now = Inr tok
    \<and> token_payload tok = Some pd
    \<and> claim pd ''iat'' = Some (JNum now)
    \<and> claim pd ''exp'' = Some (JNum (now + 28800))"
proof -
  have "wf_json (JObj (own_props (Some (JObj c))))"
    using assms(2) by (simp only: own_props_obj)
  from issue_then_verify [OF assms(1) this order_refl, of now "NotLogger (Some (JNum n))"]
  obtain tok where "createJwt (Some (JStr s)) (Some (JObj c)) (NotLogger (Some (JNum n))) now
      = Inr tok"
    "token_payload tok = Some (JObj (jwtPayload (Some (JObj c)) now))"
    by (auto simp: DEFAULT_EXPIRATION_def)
  moreover have "claim (JObj (jwtPayload (Some (JObj c)) now)) ''exp'' = Some (JNum (now + 28800))"
    by (simp add: claim_jwtPayload(2) DEFAULT_EXPIRATION_def)
  ultimately show ?thesis
    using claim_jwtPayload(1) by blast
qed

theorem C6_lifetime_fixed_witness:
  "\<exists>tok pd. createJwt (Some (JStr ''secret'')) (Some (JObj [])) (NotLogger (Some (JNum 3600)))
       1700000000 = Inr tok
    \<and> token_payload tok = Some pd
    \<and> claim pd ''iat'' = Some (JNum 1700000000)
    \<and> claim pd ''exp'' = Some (JNum 1700028800)"
proof -
  have "''secret'' \<noteq> []" "wf_json (JObj [])"
    by simp_all
  from C6_lifetime_fixed [OF this, of 3600 1700000000] show ?thesis
    by simp
qed

subsection \<open>C7: the standard claims are stamped over the caller's\<close>

text \<open>
  \<^bold>\<open>C7\<close>. For every claim object of the caller, also one with the keys \<^verbatim>\<open>iat\<close>, \<^verbatim>\<open>exp\<close>,
  \<^verbatim>\<open>iss\<close> or \<^verbatim>\<open>aud\<close>, the payload of the issued token carries the freshly computed values
  for these four, and every other entry of the caller unchanged.
\<close>

theorem C7_standard_claims_win:
  assumes "s \<noteq> []" and "wf_json (JObj c)"
  shows "\<exists>tok pd. createJwt (Some (JStr s)) (Some (JObj c)) logger now = Inr tok
    \<and> token_payload tok = Some pd
    \<and> claim pd ''iat'' = Some (JNum now)
    \<and> claim pd ''exp'' = Some (JNum (now + DEFAULT_EXPIRATION))
    \<and> claim pd ''iss'' = Some (JStr TOKEN_ISSUER)
    \<and> claim pd ''aud'' = Some (JStr TOKEN_AUDIENCE)
    \<and> (\<forall>k. k \<notin> {''iat'', ''exp'', ''iss'', ''aud''} \<longrightarrow> claim pd k = map_of c k)"
proof -
  have "wf_json (JObj (own_props (Some (JObj c))))"
    using assms(2) by (simp only: own_props_obj)
  from issue_then_verify [OF assms(1) this order_refl, of now logger]
  obtain tok where "createJwt (Some (JStr s)) (Some (JObj c)) logger now = Inr tok"
    "token_payload tok = Some (JObj (jwtPayload (Some (JObj c)) now))"
    by (auto simp: DEFAULT_EXPIRATION_def)
  moreover have "\<forall>k. k \<notin> {''iat'', ''exp'', ''iss'', ''aud''}
    \<longrightarrow> claim (JObj (jwtPayload (Some (JObj c)) now)) k = map_of c k"
    using claim_jwtPayload_other [of _ "Some (JObj c)" now] by (simp add: own_props_obj)
  ultimately show ?thesis
    using claim_jwtPayload [of "Some (JObj c)" now] by blast
qed

theorem C7_standard_claims_win_witness:
  "\<exists>tok pd. createJwt (Some (JStr ''secret''))
       (Some (JObj [(''iat'', JNum 1), (''sub'', JStr ''admin''), (''iss'', JStr ''other-app''),
                    (''exp'', JNum 9999999999), (''aud'', JNull)])) Logger 1700000000 = Inr tok
    \<and> token_payload tok = Some pd
    \<and> claim pd ''iat'' = Some (JNum 1700000000)
    \<and> claim pd ''exp'' = Some (JNum 1700028800)
    \<and> claim pd ''iss'' = Some (JStr ''web-app'')
    \<and> claim pd ''aud'' = Some (JStr ''web-app-users'')
    \<and> claim pd ''sub'' = Some (JStr ''admin'')"
proof -
  let ?c = "[(''iat'', JNum 1), (''sub'', JStr ''admin''), (''iss'', JStr ''other-app''),
    (''exp'', JNum 9999999999), (''aud'', JNull)]"
  have "''secret'' \<noteq> []" "wf_json (JObj ?c)"
    by simp_all
  from C7_standard_claims_win [OF this, of Logger 1700000000]
  obtain tok pd where t: "createJwt (Some (JStr ''secret'')) (Some (JObj ?c)) Logger 1700000000
      = Inr tok"
    "token_payload tok = Some pd"
    "claim pd ''iat'' = Some (JNum 1700000000)"
    "claim pd ''exp'' = Some (JNum (1700000000 + DEFAULT_EXPIRATION))"
    "claim pd ''iss'' = Some (JStr TOKEN_ISSUER)"
    "claim pd ''aud'' = Some (JStr TOKEN_AUDIENCE)"
    "\<forall>k. k \<notin> {''iat'', ''exp'', ''iss'', ''aud''} \<longrightarrow> claim pd k = map_of ?c k"
    by blast
  from t(7) have "claim pd ''sub'' = Some (JStr ''admin'')"
    by simp
  with t(1-6) show ?thesis
    by (auto simp: DEFAULT_EXPIRATION_def TOKEN_ISSUER_def TOKEN_AUDIENCE_def)
qed

subsection \<open>C8: the cookie header\<close>

text \<open>
  \<^bold>\<open>C8\<close>. For every token \<open>t\<close> and non-negative max-age \<open>n\<close>, \<^verbatim>\<open>createAuthCookie(t, n)\<close>
  with the default options returns exactly
  \<^verbatim>\<open>auth_token=<t>; Path=/admin; Max-Age=<n>; HttpOnly; Secure; SameSite=Strict\<close>.

  As stated the claim fails: the function writes \<^verbatim>\<open>HttpOnly=true\<close> and \<^verbatim>\<open>Secure=true\<close>
  (here at the call \<^verbatim>\<open>createAuthCookie('logged_out', 0)\<close> of the logout handler), and for
  the empty token it throws.
\<close>

theorem C8_counterexample:
  "createAuthCookie (Some (JStr ''logged_out'')) (Some (JNum 0)) no_options
     \<noteq> Inr ''auth_token=logged_out; Path=/admin; Max-Age=0; HttpOnly; Secure; SameSite=Strict''
   \<and> createAuthCookie (Some (JStr [])) (Some (JNum 0)) no_options
     = Inl (Error ''Token and maxAge are required'')"
proof -
  have "''logged_out'' \<noteq> []"
    by simp
  from createAuthCookie_default [OF this, of 0] show ?thesis
    by (simp add: number_to_string_small show_int_0 createAuthCookie_empty_token)
qed

text \<open>
  \<^bold>\<open>C8\<close>, amended. For every non-empty token \<open>t\<close> and every non-negative max-age \<open>n\<close> that
  is an integer of at most \<open>2 ^ 53 - 1\<close> (the integers that a caller can pass exactly),
  \<^verbatim>\<open>createAuthCookie(t, n)\<close> with the default options returns exactly
  \<^verbatim>\<open>auth_token=<t>; Path=/admin; Max-Age=<n>; HttpOnly=true; Secure=true; SameSite=Strict\<close>:
  that attribute order, \<open>n\<close> in decimal, \<^verbatim>\<open>HttpOnly\<close> and \<^verbatim>\<open>Secure\<close> written with the
  value \<^verbatim>\<open>true\<close>.
\<close>

theorem C8_cookie_header:
  assumes "t \<noteq> []" and "0 \<le> n" and "n \<le> 9007199254740991"
  shows "createAuthCookie (Some (JStr t)) (Some (JNum n)) no_options =
    Inr (''auth_token='' @ t @ ''; Path=/admin; Max-Age='' @ show_nat (nat n)
      @ ''; HttpOnly=true; Secure=true; SameSite=Strict'')"
proof -
  from assms(2,3) have "\<bar>n\<bar> < 2 ^ 53"
    by simp
  then have "number_to_string n = show_int n"
    by (rule number_to_string_small)
  also from assms(2) have "\<dots> = show_nat (nat n)"
    by (simp add: show_int_def)
  finally show ?thesis
    using createAuthCookie_default [OF assms(1), of n] by simp
qed

theorem C8_cookie_header_witness:
  "createAuthCookie (Some (JStr ''abc'')) (Some (JNum 28800)) no_options =
    Inr ''auth_token=abc; Path=/admin; Max-Age=28800; HttpOnly=true; Secure=true; SameSite=Strict''"
proof -
  have "''abc'' \<noteq> []" and "(0::int) \<le> 28800" and "(28800::int) \<le> 9007199254740991"
    by simp_all
  from C8_cookie_header [OF this] show ?thesis
    by (simp add: show_nat_28800)
qed

subsection \<open>C9: the codec\<close>

text \<open>
  \<^bold>\<open>C9\<close>. The codec is a round trip: for every byte string \<open>s\<close>, decoding the encoding of
  \<open>s\<close> returns \<open>s\<close> (and does not throw). Encoding is standard base64 with \<open>+\<close> replaced by
  \<open>-\<close>, \<open>/\<close> by \<open>_\<close> and the \<open>=\<close> removed; decoding reverses the substitution, pads with
  \<open>=\<close> to a multiple of four and applies the standard base64 decoder.
\<close>

theorem C9_codec_round_trip: "base64UrlDecode (base64UrlEncode s) = Inr s"
  by (rule base64Url_decode_encode)

subsection \<open>C10: the header is not read\<close>

text \<open>
  \<^bold>\<open>C10\<close>. The result of \<^verbatim>\<open>verifyJwt\<close> does not depend on the header segment: two tokens with
  the same payload segment, each signed over its own header and payload with the same
  secret, get the same result, since the header is never decoded. A header that is no JSON,
  or that names another algorithm, is accepted when the signature and the claims pass.

  A token has three segments, the header not empty, none with a dot in it.
\<close>

theorem C10_header_not_read:
  assumes "h1 \<noteq> []" and "h2 \<noteq> []"
    and "CHR ''.'' \<notin> set h1" and "CHR ''.'' \<notin> set h2" and "CHR ''.'' \<notin> set p"
  shows "verifyJwt (Some (JStr s))
        (Some (JStr (signToken (TextEncoder_encode s) (h1 @ ''.'' @ p)))) logger now
      = verifyJwt (Some (JStr s))
        (Some (JStr (signToken (TextEncoder_encode s) (h2 @ ''.'' @ p)))) logger now"
proof (cases "s = []")
  case True
  then show ?thesis
    by (simp add: verifyJwt_def truthy_def)
next
  case s: False
  have ne: "signToken (TextEncoder_encode s) (h @ ''.'' @ p) \<noteq> []" for h
    by (simp add: signToken_def)
  have "verifyJwt_try (Some (JStr s))
        (Some (JStr (signToken (TextEncoder_encode s) (h1 @ ''.'' @ p)))) logger now
      = verifyJwt_try (Some (JStr s))
        (Some (JStr (signToken (TextEncoder_encode s) (h2 @ ''.'' @ p)))) logger now"
  proof (cases "p = []")
    case True
    have "verifyJwt_try (Some (JStr s))
        (Some (JStr (signToken (TextEncoder_encode s) (h @ ''.'' @ p)))) logger now
      = log_return logger (JBool False)" if "CHR ''.'' \<notin> set h" for h
    proof -
      let ?g = "base64UrlEncode
        (hmac_sha256 (TextEncoder_encode s) (TextEncoder_encode (h @ ''.'' @ p)))"
      have t: "signToken (TextEncoder_encode s) (h @ ''.'' @ p) = h @ ''.'' @ p @ ''.'' @ ?g"
        by (simp add: signToken_def subtle_sign_def)
      show ?thesis
        unfolding t
        by (subst verifyJwt_try_segments [OF s that assms(5) base64UrlEncode_no_dot])
          (simp add: True)
    qed
    with assms(3,4) show ?thesis
      by simp
  next
    case False
    show ?thesis
      by (simp only: verifyJwt_try_signed [OF s assms(1) False assms(3,5)]
          verifyJwt_try_signed [OF s assms(2) False assms(4,5)])
  qed
  then show ?thesis
    using s ne by (simp add: verifyJwt_def truthy_def)
qed

theorem C10_header_not_read_witness:
  "verifyJwt (Some (JStr ''secret''))
      (Some (JStr (signToken (TextEncoder_encode ''secret'')
        (''not-a-header'' @ ''.''
          @ base64UrlEncode (stringify (JObj (jwtPayload (Some (JObj [])) 1700000000)))))))
      Logger 1700000000
    = verifyJwt (Some (JStr ''secret''))
      (Some (JStr (signToken (TextEncoder_encode ''secret'')
        (base64UrlEncode (stringify jwtHeader) @ ''.''
          @ base64UrlEncode (stringify (JObj (jwtPayload (Some (JObj [])) 1700000000)))))))
      Logger 1700000000
   \<and> verifyJwt (Some (JStr ''secret''))
      (Some (JStr (signToken (TextEncoder_encode ''secret'')
        (''not-a-header'' @ ''.''
          @ base64UrlEncode (stringify (JObj (jwtPayload (Some (JObj [])) 1700000000)))))))
      Logger 1700000000 = Inr (JBool True)"
proof -
  let ?v = "JObj (jwtPayload (Some (JObj [])) 1700000000)"
  let ?p = "base64UrlEncode (stringify ?v)"
  have wf: "wf_json ?v"
    by (rule wf_jwtPayload) (simp add: own_props_obj)
  have s: "''secret'' \<noteq> []" and h: "''not-a-header'' \<noteq> []" "CHR ''.'' \<notin> set ''not-a-header''"
    by simp_all
  have eq: "verifyJwt (Some (JStr ''secret''))
      (Some (JStr (signToken (TextEncoder_encode ''secret'') (''not-a-header'' @ ''.'' @ ?p))))
      Logger 1700000000
    = verifyJwt (Some (JStr ''secret''))
      (Some (JStr (signToken (TextEncoder_encode ''secret'')
        (base64UrlEncode (stringify jwtHeader) @ ''.'' @ ?p))))
      Logger 1700000000"
    by (rule C10_header_not_read [OF h(1) encoded_header(1) h(2) encoded_header(2)
          base64UrlEncode_no_dot])
  have "validateClaims ?v Logger 1700000000 = Inr (JBool True)"
    by (rule validateClaims_jwtPayload) (simp_all add: DEFAULT_EXPIRATION_def)
  then have "verifyJwt (Some (JStr ''secret''))
      (Some (JStr (signToken (TextEncoder_encode ''secret'')
        (base64UrlEncode (stringify jwtHeader) @ ''.'' @ ?p))))
      Logger 1700000000 = Inr (JBool True)"
    by (simp only: verifyJwt_signed [OF s encoded_header wf] sum.case)
  with eq show ?thesis
    by simp
qed

end
